theory Spec2Isabelle
  imports Complex_Main "HOL-Library.Multiset"
begin

section \<open>Sources\<close>

text \<open>
  The program replays the data feeds of a cruise.  Its sources are: \<^verbatim>\<open>feeds/feeds.go\<close> (the
  interface \<^verbatim>\<open>Emitter\<close>, \<^verbatim>\<open>Warning\<close> and \<^verbatim>\<open>timeFromFilename\<close>); \<^verbatim>\<open>feeds/underway.go\<close>, which
  holds the underway feed (lines 1-160) and after it the instrument log feed \<^verbatim>\<open>SeaLog\<close>
  (lines 161-292); the file of the EVT feed (\<^verbatim>\<open>NewEvt\<close>) and the file of the SFL feed
  (\<^verbatim>\<open>NewSfl\<close>); and the command (\<^verbatim>\<open>Run\<close>, \<^verbatim>\<open>minTime\<close>, \<^verbatim>\<open>startEmitter\<close>), which stands in
  \<^verbatim>\<open>build.sh\<close> after the build script (lines 22-288).  Line numbers below are those of these
  files.
\<close>

section \<open>Time values\<close>

text \<open>
  A Go \<^verbatim>\<open>time.Time\<close> is modelled by the instant it denotes: the number of nanoseconds
  since the zero time (January 1, year 1, 00:00:00 UTC), an unbounded integer.  The zero
  value \<^verbatim>\<open>time.Time{}\<close> is \<open>0\<close>, \<^verbatim>\<open>IsZero\<close> is equality with \<open>0\<close>, \<^verbatim>\<open>Before\<close> is
  \<open><\<close> and \<^verbatim>\<open>Equal\<close> is \<open>=\<close>.  A \<^verbatim>\<open>time.Duration\<close> is a signed 64-bit count of
  nanoseconds.
\<close>

type_synonym Time = int
type_synonym Duration = int

definition Second :: Duration where
  "Second = 1000000000"

definition IsZero :: "Time \<Rightarrow> bool" where
  "IsZero t = (t = 0)"

definition Before :: "Time \<Rightarrow> Time \<Rightarrow> bool" where
  "Before t u = (t < u)"

text \<open>
  \<^verbatim>\<open>t.Truncate(d)\<close> rounds \<open>t\<close> down to a multiple of \<open>d\<close> since the zero time
  (and returns \<open>t\<close> unchanged when \<open>d \<le> 0\<close>).
\<close>

definition Truncate :: "Time \<Rightarrow> Duration \<Rightarrow> Time" where
  "Truncate t d = (if d \<le> 0 then t else t - t mod d)"

section \<open>Strings\<close>

text \<open>\<^verbatim>\<open>strings.Join(elems, sep)\<close>.\<close>

fun strings_Join :: "string list \<Rightarrow> string \<Rightarrow> string" where
  "strings_Join [] sep = []"
| "strings_Join [x] sep = x"
| "strings_Join (x # y # ys) sep = x @ sep @ strings_Join (y # ys) sep"

section \<open>Records of the feeds\<close>

text \<open>
  Every record struct of the feeds carries a \<^verbatim>\<open>time\<close>; \<^verbatim>\<open>underwayRecord\<close> and
  \<^verbatim>\<open>seaLogRecord\<close> are both \<^verbatim>\<open>{time, data}\<close>, \<^verbatim>\<open>sflRecord\<close> adds the index of its source
  file, \<^verbatim>\<open>evtFile\<close> is \<^verbatim>\<open>{time, path}\<close>.
\<close>

record timed =
  time :: Time

record evtFile = timed +
  path :: string

record underwayRecord = timed +
  data :: string

type_synonym seaLogRecord = underwayRecord

record sflRecord = underwayRecord +
  idx :: nat

section \<open>The underway feed: coalescing\<close>

text \<open>
  The loop of \<^verbatim>\<open>NewUnderway\<close> (underway.go, lines 83-92) over the records after the first,
  with its three variables: the second \<open>t\<close> of the open group, the \<open>lines\<close> of the open
  group and the groups closed so far, \<open>newdata\<close>.  At the end of the slice the open group
  is closed (line 93).
\<close>

fun coalesce_loop ::
  "Time \<Rightarrow> string list \<Rightarrow> underwayRecord list \<Rightarrow> underwayRecord list \<Rightarrow> underwayRecord list"
where
  "coalesce_loop t lines newdata [] =
     newdata @ [\<lparr>time = t, data = strings_Join lines ''\<newline>''\<rparr>]"
| "coalesce_loop t lines newdata (r # rs) =
     (if Truncate (time r) Second = t
      then coalesce_loop t (lines @ [data r]) newdata rs
      else coalesce_loop (Truncate (time r) Second) [data r]
             (newdata @ [\<lparr>time = t, data = strings_Join lines ''\<newline>''\<rparr>]) rs)"

text \<open>Lines 79-94: nothing is done to an empty slice.\<close>

definition coalesce :: "underwayRecord list \<Rightarrow> underwayRecord list" where
  "coalesce rs =
     (case rs of
        [] \<Rightarrow> []
      | r # rest \<Rightarrow> coalesce_loop (Truncate (time r) Second) [data r] [] rest)"

section \<open>Warnings\<close>

text \<open>
  A \<^verbatim>\<open>Warning\<close> wraps the error built by \<^verbatim>\<open>fmt.Errorf\<close>; the constructor names the format
  string and keeps its arguments: \<^verbatim>\<open>"evt: bad timestamp in %s: %v"\<close>,
  \<^verbatim>\<open>"sfl: could not parse timestamp %s:%d %v"\<close>, \<^verbatim>\<open>"sfl: unparsable line %s:%d"\<close>,
  \<^verbatim>\<open>"underway: line %d: %v"\<close> and \<^verbatim>\<open>"seaflowlog: unhandled event at line %d: %s"\<close>.
\<close>

datatype Warning =
    EvtBadTimestamp string
  | SflBadTimestamp string nat
  | SflUnparsable string nat
  | UnderwayLine nat string
  | SeaLogUnhandled int string

section \<open>Feed sequences\<close>

text \<open>
  The four feed structs share the cursor \<^verbatim>\<open>i\<close>, the slice \<^verbatim>\<open>data\<close> and the \<^verbatim>\<open>warnings\<close>;
  the slice is the field \<open>records\<close> here, since \<open>data\<close> already names the payload of a
  record, and the field \<^verbatim>\<open>file\<close> is \<open>outFile\<close>.  \<^verbatim>\<open>Evt\<close> adds \<^verbatim>\<open>outDir\<close>; \<^verbatim>\<open>SeaLog\<close> adds \<^verbatim>\<open>outDir\<close> and \<^verbatim>\<open>file\<close>; \<^verbatim>\<open>Sfl\<close> adds
  \<^verbatim>\<open>paths\<close>, \<^verbatim>\<open>outDir\<close> and \<^verbatim>\<open>file\<close>; \<^verbatim>\<open>Underway\<close> adds \<^verbatim>\<open>conn\<close>.

  An \<^verbatim>\<open>*os.File\<close> and a \<^verbatim>\<open>net.Conn\<close> are objects of the standard library: what matters of
  them here is the name of the file and whether they were closed.
\<close>

record osFile =
  fname :: string
  fclosed :: bool

record netConn =
  cclosed :: bool

record 'r feed =
  i :: int
  records :: "'r list"
  warnings :: "Warning list"

record 'r outFeed = "'r feed" +
  outDir :: string

record 'r fileFeed = "'r outFeed" +
  outFile :: "osFile option"

type_synonym Evt = "evtFile outFeed"

type_synonym SeaLog = "seaLogRecord fileFeed"

record Sfl = "sflRecord fileFeed" +
  paths :: "string list"

record Underway = "underwayRecord feed" +
  conn :: "netConn option"

text \<open>
  The methods \<^verbatim>\<open>Next\<close>, \<^verbatim>\<open>Time\<close>, \<^verbatim>\<open>Earliest\<close> and \<^verbatim>\<open>Len\<close> have the same body in the four
  structs.  \<^verbatim>\<open>Next\<close> returns its result and the struct with the cursor it leaves.
\<close>

definition Next :: "('r, 'm) feed_scheme \<Rightarrow> bool \<times> ('r, 'm) feed_scheme" where
  "Next e = (if i e + 1 < int (length (records e)) then (True, e\<lparr>i := i e + 1\<rparr>) else (False, e))"

text \<open>
  \<^verbatim>\<open>Time\<close> reads \<^verbatim>\<open>data[i]\<close>; an index beyond the slice is a run-time panic of Go, the
  value \<open>None\<close> here.
\<close>

definition Time_at :: "('a timed_scheme, 'm) feed_scheme \<Rightarrow> Time option" where
  "Time_at e =
     (if 0 \<le> i e \<and> 0 < length (records e)
      then (if nat (i e) < length (records e) then Some (time (records e ! nat (i e))) else None)
      else Some 0)"

definition Earliest :: "('a timed_scheme, 'm) feed_scheme \<Rightarrow> Time" where
  "Earliest e = (case records e of [] \<Rightarrow> 0 | r # _ \<Rightarrow> time r)"

definition Len :: "('r, 'm) feed_scheme \<Rightarrow> int" where
  "Len e = int (length (records e))"

text \<open>The interface \<^verbatim>\<open>Emitter\<close> with its four implementations.\<close>

datatype Emitter = EvtE Evt | SflE Sfl | UnderwayE Underway | SeaLogE SeaLog

fun Emitter_Next :: "Emitter \<Rightarrow> bool \<times> Emitter" where
  "Emitter_Next (EvtE e) = map_prod id EvtE (Next e)"
| "Emitter_Next (SflE e) = map_prod id SflE (Next e)"
| "Emitter_Next (UnderwayE e) = map_prod id UnderwayE (Next e)"
| "Emitter_Next (SeaLogE e) = map_prod id SeaLogE (Next e)"

fun Emitter_Time :: "Emitter \<Rightarrow> Time option" where
  "Emitter_Time (EvtE e) = Time_at e"
| "Emitter_Time (SflE e) = Time_at e"
| "Emitter_Time (UnderwayE e) = Time_at e"
| "Emitter_Time (SeaLogE e) = Time_at e"

fun Emitter_Earliest :: "Emitter \<Rightarrow> Time" where
  "Emitter_Earliest (EvtE e) = Earliest e"
| "Emitter_Earliest (SflE e) = Earliest e"
| "Emitter_Earliest (UnderwayE e) = Earliest e"
| "Emitter_Earliest (SeaLogE e) = Earliest e"

fun Emitter_Len :: "Emitter \<Rightarrow> int" where
  "Emitter_Len (EvtE e) = Len e"
| "Emitter_Len (SflE e) = Len e"
| "Emitter_Len (UnderwayE e) = Len e"
| "Emitter_Len (SeaLogE e) = Len e"

fun Emitter_Name :: "Emitter \<Rightarrow> string" where
  "Emitter_Name (EvtE e) = ''evt''"
| "Emitter_Name (SflE e) = ''sfl''"
| "Emitter_Name (UnderwayE e) = ''underway''"
| "Emitter_Name (SeaLogE e) = ''seaflowlog''"

text \<open>The cursor and the times of the records, for stating properties.\<close>

fun cursor :: "Emitter \<Rightarrow> int" where
  "cursor (EvtE e) = i e"
| "cursor (SflE e) = i e"
| "cursor (UnderwayE e) = i e"
| "cursor (SeaLogE e) = i e"

fun record_times :: "Emitter \<Rightarrow> Time list" where
  "record_times (EvtE e) = map time (records e)"
| "record_times (SflE e) = map time (records e)"
| "record_times (UnderwayE e) = map time (records e)"
| "record_times (SeaLogE e) = map time (records e)"

text \<open>The results of \<open>n\<close> calls of \<^verbatim>\<open>Next\<close> one after the other, and the emitter they leave.\<close>

fun Next_times :: "nat \<Rightarrow> Emitter \<Rightarrow> bool list \<times> Emitter" where
  "Next_times 0 e = ([], e)"
| "Next_times (Suc n) e =
     (let r = Emitter_Next e; rest = Next_times n (snd r) in (fst r # fst rest, snd rest))"

section \<open>Sorting\<close>

text \<open>
  \<^verbatim>\<open>sort.SliceStable(data, less)\<close> of the standard library sorts the slice by \<open>less\<close> (here \<open>lessf\<close>) and
  keeps equal elements in their order.  It is modelled by insertion sort: each element of
  the slice, in the order of the slice, moves in front of the elements it is less than.
\<close>

fun insert_stable :: "('a \<Rightarrow> 'a \<Rightarrow> bool) \<Rightarrow> 'a \<Rightarrow> 'a list \<Rightarrow> 'a list" where
  "insert_stable lessf x [] = [x]"
| "insert_stable lessf x (y # ys) =
     (if lessf x y then x # y # ys else y # insert_stable lessf x ys)"

definition SliceStable :: "('a \<Rightarrow> 'a \<Rightarrow> bool) \<Rightarrow> 'a list \<Rightarrow> 'a list" where
  "SliceStable lessf xs = foldl (\<lambda>acc x. insert_stable lessf x acc) [] xs"

text \<open>The comparison of every call: \<^verbatim>\<open>data[i].time.Before(data[j].time)\<close>.\<close>

definition by_time :: "'a timed_scheme \<Rightarrow> 'a timed_scheme \<Rightarrow> bool" where
  "by_time a b = Before (time a) (time b)"

section \<open>Timestamps in text\<close>

text \<open>
  \<open>fits pattern s\<close>: the string has the length of the pattern, a decimal digit wherever the
  pattern has the letter \<open>d\<close>, and the pattern's own character elsewhere.
\<close>

definition isDigit :: "char \<Rightarrow> bool" where
  "isDigit c = (c \<in> set ''0123456789'')"

fun fits :: "string \<Rightarrow> string \<Rightarrow> bool" where
  "fits [] [] = True"
| "fits (p # ps) (c # cs) = ((if p = CHR ''d'' then isDigit c else c = p) \<and> fits ps cs)"
| "fits _ _ = False"

definition atoi :: "string \<Rightarrow> int" where
  "atoi s = foldl (\<lambda>n c. 10 * n + (int (of_char c) - 48)) 0 s"

text \<open>
  \<^verbatim>\<open>time.Date(year, month, day, hour, min, sec, nsec, time.UTC)\<close> in the proleptic Gregorian
  calendar, as nanoseconds since the zero time.
\<close>

definition isLeap :: "int \<Rightarrow> bool" where
  "isLeap year = (year mod 4 = 0 \<and> (year mod 100 \<noteq> 0 \<or> year mod 400 = 0))"

definition daysBefore :: "int \<Rightarrow> int" where
  "daysBefore month = [0, 31, 59, 90, 120, 151, 181, 212, 243, 273, 304, 334] ! nat (month - 1)"

definition daysIn :: "int \<Rightarrow> int \<Rightarrow> int" where
  "daysIn month year =
     (if month = 2 \<and> isLeap year then 29
      else [31, 28, 31, 30, 31, 30, 31, 31, 30, 31, 30, 31] ! nat (month - 1))"

definition daysSinceEpoch :: "int \<Rightarrow> int" where
  "daysSinceEpoch year =
     365 * (year - 1) + (year - 1) div 4 - (year - 1) div 100 + (year - 1) div 400"

definition Date :: "int \<Rightarrow> int \<Rightarrow> int \<Rightarrow> int \<Rightarrow> int \<Rightarrow> int \<Rightarrow> int \<Rightarrow> Time" where
  "Date year month day hour minute sec nsec =
     (let d = daysSinceEpoch year + daysBefore month
              + (if isLeap year \<and> 3 \<le> month then 1 else 0) + (day - 1)
      in (((d * 24 + hour) * 60 + minute) * 60 + sec) * 1000000000 + nsec)"

text \<open>
  \<^verbatim>\<open>time.Parse(time.RFC3339, value)\<close> of the standard library, for the values its two
  callers build: both end in the zone \<^verbatim>\<open>+00:00\<close>, and for any other zone the model answers
  \<open>None\<close>.  The layout is \<^verbatim>\<open>2006-01-02T15:04:05Z07:00\<close>; a fraction of a second may follow
  the seconds (a period or comma and digits, of which nine count); month, day of the month,
  hour, minute and second are checked for their ranges.  \<open>None\<close> is the parse error.
  (Go also reads an hour of one digit; with the separators where both callers put them such
  a value fails at the minutes, so it is an error here as well.)
\<close>

definition fraction :: "string \<Rightarrow> string" where
  "fraction rest =
     (if 2 \<le> length rest \<and> (hd rest = CHR ''.'' \<or> hd rest = CHR '','') \<and> isDigit (rest ! 1)
      then takeWhile isDigit (tl rest) else [])"

definition nanoseconds :: "string \<Rightarrow> int" where
  "nanoseconds digits = atoi (take 9 (digits @ ''000000000''))"

definition time_Parse_RFC3339 :: "string \<Rightarrow> Time option" where
  "time_Parse_RFC3339 v =
     (let rest = drop 19 v;
          frac = fraction rest;
          zone = (if frac = [] then rest else drop (1 + length frac) rest);
          year = atoi (take 4 v);
          month = atoi (take 2 (drop 5 v));
          day = atoi (take 2 (drop 8 v));
          hour = atoi (take 2 (drop 11 v));
          minute = atoi (take 2 (drop 14 v));
          sec = atoi (take 2 (drop 17 v))
      in if \<not> fits ''dddd-dd-ddTdd:dd:dd'' (take 19 v) \<or> zone \<noteq> ''+00:00'' then None
         else if month < 1 \<or> 12 < month \<or> day < 1 \<or> daysIn month year < day
                 \<or> 24 \<le> hour \<or> 60 \<le> minute \<or> 60 \<le> sec then None
         else Some (Date year month day hour minute sec (nanoseconds frac)))"

text \<open>\<^verbatim>\<open>filepath.Base\<close> with the separator \<^verbatim>\<open>/\<close> of the two build targets.\<close>

definition filepath_Base :: "string \<Rightarrow> string" where
  "filepath_Base p =
     (if p = [] then ''.''
      else let q = rev (dropWhile (\<lambda>c. c = CHR ''/'') (rev p));
               b = rev (takeWhile (\<lambda>c. c \<noteq> CHR ''/'') (rev q))
           in if b = [] then ''/'' else b)"

text \<open>
  feeds.go, lines 51-60.  The regular expression
  \<^verbatim>\<open>^(\d{4}-\d{2}-\d{2}T\d{2})-(\d{2})-(\d{2}(?:\.\d+)?)(?:.+)?$\<close> matches a base name that
  starts with the nineteen characters of the timestamp and has no line feed after them (the
  dot of the pattern matches every other character); its third group is the seconds with
  the longest fraction that follows them.  \<open>submatches\<close> is \<^verbatim>\<open>subs[1]\<close>, \<^verbatim>\<open>subs[2]\<close>,
  \<^verbatim>\<open>subs[3]\<close> of a match.  The result \<open>None\<close> is the error return, whose time is the zero
  time.
\<close>

definition submatches :: "string \<Rightarrow> (string \<times> string \<times> string) option" where
  "submatches fnbase =
     (let rest = drop 19 fnbase;
          frac = (if 2 \<le> length rest \<and> hd rest = CHR ''.'' \<and> isDigit (rest ! 1)
                  then CHR ''.'' # takeWhile isDigit (tl rest) else [])
      in if fits ''dddd-dd-ddTdd-dd-dd'' (take 19 fnbase) \<and> CHR 10 \<notin> set rest
         then Some (take 13 fnbase, take 2 (drop 14 fnbase), take 2 (drop 17 fnbase) @ frac)
         else None)"

definition timeFromFilename :: "string \<Rightarrow> Time option" where
  "timeFromFilename fn =
     (case submatches (filepath_Base fn) of
        None \<Rightarrow> None
      | Some (s1, s2, s3) \<Rightarrow> time_Parse_RFC3339 (s1 @ '':'' @ s2 @ '':'' @ s3 @ ''+00:00''))"

section \<open>The EVT feed\<close>

text \<open>
  \<^verbatim>\<open>NewEvt\<close>: a file whose name has no timestamp gives a warning and is kept, with the zero
  time.  The constructor has no error return of its own.
\<close>

fun evt_files :: "string list \<Rightarrow> Evt \<Rightarrow> Evt" where
  "evt_files [] e = e"
| "evt_files (f # fs) e =
     (case timeFromFilename f of
        None \<Rightarrow>
          evt_files fs (e\<lparr>records := records e @ [\<lparr>time = 0, path = f\<rparr>],
                           warnings := warnings e @ [EvtBadTimestamp f]\<rparr>)
      | Some t \<Rightarrow> evt_files fs (e\<lparr>records := records e @ [\<lparr>time = t, path = f\<rparr>]\<rparr>))"

definition evt_empty :: "string \<Rightarrow> Evt" where
  "evt_empty dir = \<lparr>i = - 1, records = [], warnings = [], outDir = dir\<rparr>"

definition NewEvt :: "string list \<Rightarrow> string \<Rightarrow> Evt" where
  "NewEvt files dir =
     (let e = evt_files files (evt_empty dir)
      in e\<lparr>records := SliceStable by_time (records e)\<rparr>)"

section \<open>The SFL feed\<close>

text \<open>\<^verbatim>\<open>strings.Split(s, sep)\<close> for a separator of one character.\<close>

fun strings_Split :: "string \<Rightarrow> char \<Rightarrow> string list" where
  "strings_Split [] sep = [[]]"
| "strings_Split (c # cs) sep =
     (if c = sep then [] # strings_Split cs sep
      else (case strings_Split cs sep of
              [] \<Rightarrow> [[c]]
            | w # ws \<Rightarrow> (c # w) # ws))"

text \<open>
  One data line of an SFL file (lines 73-91 of \<^verbatim>\<open>NewSfl\<close>): \<open>f\<close> is the path of the file,
  \<open>fidx\<close> its index among the files, \<open>header\<close> its first line, \<open>lineNum\<close> the number of the
  line (from 2 on) and \<open>lineText\<close> its text.
\<close>

definition sfl_line :: "string \<Rightarrow> nat \<Rightarrow> string \<Rightarrow> nat \<Rightarrow> string \<Rightarrow> Sfl \<Rightarrow> Sfl" where
  "sfl_line f fidx header lineNum lineText s =
     (let cols = strings_Split lineText (CHR 9) in
      if 1 < length cols \<and> length (hd cols) = 25 then
        (let tstamp = take 19 (hd cols) @ ''+00:00'';
             tstamp' = take 13 tstamp @ '':'' @ take 2 (drop 14 tstamp) @ '':'' @ drop 17 tstamp
         in case time_Parse_RFC3339 tstamp' of
              None \<Rightarrow> s\<lparr>warnings := warnings s @ [SflBadTimestamp f lineNum]\<rparr>
            | Some lineTime \<Rightarrow>
                s\<lparr>records := records s @
                     [\<lparr>time = lineTime,
                       data = (if lineNum = 2 then header @ [CHR 13, CHR 10] @ lineText else lineText),
                       idx = fidx\<rparr>]\<rparr>)
      else s\<lparr>warnings := warnings s @ [SflUnparsable f lineNum]\<rparr>)"

text \<open>
  The loop over the lines of one file (lines 63-92); \<open>lineNum\<close> is the number of lines read
  so far.  The first line is the header, and records the path of the file.
\<close>

fun sfl_scan :: "string \<Rightarrow> nat \<Rightarrow> nat \<Rightarrow> string \<Rightarrow> string list \<Rightarrow> Sfl \<Rightarrow> Sfl" where
  "sfl_scan f fidx lineNum header [] s = s"
| "sfl_scan f fidx lineNum header (lineText # rest) s =
     (if lineNum + 1 = 1
      then sfl_scan f fidx (lineNum + 1) lineText rest (s\<lparr>paths := paths s @ [f]\<rparr>)
      else sfl_scan f fidx (lineNum + 1) header rest
             (sfl_line f fidx header (lineNum + 1) lineText s))"

text \<open>
  The loop over the files (lines 57-93).  \<open>readFile\<close> is the file system as
  \<^verbatim>\<open>ioutil.ReadFile\<close> and the \<^verbatim>\<open>bufio.Scanner\<close> see it: the lines of a file, or the error of
  reading it, which ends the constructor.
\<close>

fun sfl_files ::
  "(string \<Rightarrow> string + string list) \<Rightarrow> nat \<Rightarrow> string list \<Rightarrow> Sfl \<Rightarrow> string + Sfl"
where
  "sfl_files readFile fidx [] s = Inr s"
| "sfl_files readFile fidx (f # fs) s =
     (case readFile f of
        Inl err \<Rightarrow> Inl err
      | Inr fileText \<Rightarrow> sfl_files readFile (fidx + 1) fs (sfl_scan f fidx 0 [] fileText s))"

definition sfl_empty :: "string \<Rightarrow> Sfl" where
  "sfl_empty dir =
     \<lparr>i = - 1, records = [], warnings = [], outDir = dir, outFile = None, paths = []\<rparr>"

definition NewSfl :: "(string \<Rightarrow> string + string list) \<Rightarrow> string list \<Rightarrow> string \<Rightarrow> string + Sfl" where
  "NewSfl readFile files dir =
     (case sfl_files readFile 0 files (sfl_empty dir) of
        Inl err \<Rightarrow> Inl err
      | Inr s \<Rightarrow> Inr (s\<lparr>records := SliceStable by_time (records s)\<rparr>))"

section \<open>The underway feed\<close>

text \<open>
  The parser of the underway lines is a library outside the repository.  Its answer to a
  line is an error, or a datum with its \<^verbatim>\<open>OK()\<close> and its \<^verbatim>\<open>Time\<close>; the constructor is given
  the cleaned lines of the file with the answers of the parser.
\<close>

datatype ParseResult = ParseError string | ParseData bool Time

fun underway_scan :: "nat \<Rightarrow> (string \<times> ParseResult) list \<Rightarrow> Underway \<Rightarrow> Underway" where
  "underway_scan n [] u = u"
| "underway_scan n ((line, ParseError err) # rest) u =
     underway_scan (n + 1) rest (u\<lparr>warnings := warnings u @ [UnderwayLine (n + 1) err]\<rparr>)"
| "underway_scan n ((line, ParseData ok t) # rest) u =
     underway_scan (n + 1) rest
       (if ok then u\<lparr>records := records u @ [\<lparr>time = t, data = line\<rparr>]\<rparr> else u)"

text \<open>
  \<^verbatim>\<open>NewUnderway\<close>: \<open>dial\<close> is the connection of \<^verbatim>\<open>net.Dial\<close> or its error, \<open>opened\<close> the
  error returned when the file cannot be opened (that of \<^verbatim>\<open>os.Open\<close>, or that of the gzip
  reader with its prefix), if any, \<open>scanned\<close> the lines and \<open>scanErr\<close> the error of the
  scanner, if any.
\<close>

definition underway_empty :: "netConn \<Rightarrow> Underway" where
  "underway_empty c = \<lparr>i = - 1, records = [], warnings = [], conn = Some c\<rparr>"

definition NewUnderway ::
  "string + netConn \<Rightarrow> string option \<Rightarrow> (string \<times> ParseResult) list \<Rightarrow> string option
     \<Rightarrow> string + Underway"
where
  "NewUnderway dial opened scanned scanErr =
     (case dial of
        Inl err \<Rightarrow> Inl (''underway: '' @ err)
      | Inr c \<Rightarrow>
          (case opened of
             Some err \<Rightarrow> Inl err
           | None \<Rightarrow>
               (let u = underway_scan 0 scanned (underway_empty c)
                in case scanErr of
                     Some err \<Rightarrow> Inl (''underway: '' @ err)
                   | None \<Rightarrow> Inr (u\<lparr>records := coalesce (SliceStable by_time (records u))\<rparr>))))"

section \<open>The instrument log feed\<close>

text \<open>An event of the scanner of the \<^verbatim>\<open>seaflog\<close> library, with the fields the feed reads.\<close>

record Event =
  evName :: string
  evTime :: Time
  evLine :: string
  evLineNumber :: int

fun sealog_scan :: "Event list \<Rightarrow> SeaLog \<Rightarrow> SeaLog" where
  "sealog_scan [] s = s"
| "sealog_scan (event # rest) s =
     sealog_scan rest
       (if evName event \<noteq> ''unhandled''
        then s\<lparr>records := records s @ [\<lparr>time = evTime event, data = evLine event\<rparr>]\<rparr>
        else s\<lparr>warnings := warnings s @ [SeaLogUnhandled (evLineNumber event) (evLine event)]\<rparr>)"

definition sealog_empty :: "string \<Rightarrow> SeaLog" where
  "sealog_empty dir = \<lparr>i = - 1, records = [], warnings = [], outDir = dir, outFile = None\<rparr>"

definition NewSeaLog :: "string option \<Rightarrow> Event list \<Rightarrow> string option \<Rightarrow> string \<Rightarrow> string + SeaLog" where
  "NewSeaLog opened events scanErr dir =
     (case opened of
        Some err \<Rightarrow> Inl (''seaflowlog: '' @ err)
      | None \<Rightarrow>
          (let s = sealog_scan events (sealog_empty dir)
           in case scanErr of
                Some err \<Rightarrow> Inl (''seaflowlog: '' @ err)
              | None \<Rightarrow> Inr (s\<lparr>records := SliceStable by_time (records s)\<rparr>)))"

section \<open>Durations and floating point\<close>

text \<open>
  \<^verbatim>\<open>t.Sub(u)\<close> is the difference as a \<^verbatim>\<open>Duration\<close>, and the largest or smallest
  \<^verbatim>\<open>Duration\<close> when the difference does not fit into 64 bits.  \<^verbatim>\<open>t.Add(d)\<close> cannot leave
  the range of a \<^verbatim>\<open>Time\<close> for the times of this program.
\<close>

definition Sub :: "Time \<Rightarrow> Time \<Rightarrow> Duration" where
  "Sub t u =
     (let d = t - u in
      if - (2 ^ 63) \<le> d \<and> d < 2 ^ 63 then d
      else if Before t u then - (2 ^ 63) else 2 ^ 63 - 1)"

definition Add :: "Time \<Rightarrow> Duration \<Rightarrow> Time" where
  "Add t d = t + d"

text \<open>
  A \<^verbatim>\<open>float64\<close> is modelled by the real number it denotes.  An operation of \<^verbatim>\<open>float64\<close>
  rounds its exact result to 53 significant bits, to the nearest value and to the even one
  of two nearest values (\<open>float64_round\<close>).  The exponent is left unbounded: the only
  \<^verbatim>\<open>float64\<close> computed here is converted to an integer at once, and a result too small or
  too large for the exponent of a \<^verbatim>\<open>float64\<close> is converted like its rounded real number.
\<close>

definition round_half_even :: "real \<Rightarrow> int" where
  "round_half_even x =
     (let f = \<lfloor>x\<rfloor>; d = x - of_int f in
      if d < 1 / 2 then f else if 1 / 2 < d then f + 1 else if even f then f else f + 1)"

definition pow2 :: "int \<Rightarrow> real" where
  "pow2 e = (if 0 \<le> e then 2 ^ nat e else 1 / 2 ^ nat (- e))"

definition float64_round :: "real \<Rightarrow> real" where
  "float64_round x =
     (if x = 0 then 0
      else let e = \<lfloor>log 2 \<bar>x\<bar>\<rfloor> - 52 in of_int (round_half_even (x / pow2 e)) * pow2 e)"

definition float64_of_int64 :: "int \<Rightarrow> real" where
  "float64_of_int64 n = float64_round (of_int n)"

text \<open>
  The conversion \<^verbatim>\<open>time.Duration(x)\<close> of a \<^verbatim>\<open>float64\<close> truncates towards zero.  For a
  value outside the 64-bit integers Go leaves the result to the implementation; the build
  script of the repository compiles for \<^verbatim>\<open>GOARCH=amd64\<close> only, where the result is the
  smallest 64-bit integer.
\<close>

definition int64_of_float64 :: "real \<Rightarrow> int" where
  "int64_of_float64 x =
     (let n = (if 0 \<le> x then \<lfloor>x\<rfloor> else \<lceil>x\<rceil>) in
      if - (2 ^ 63) \<le> n \<and> n < 2 ^ 63 then n else - (2 ^ 63))"

text \<open>
  Line 272 of \<^verbatim>\<open>startEmitter\<close>: \<^verbatim>\<open>time.Duration(float64(delta.Nanoseconds()) / warp)\<close>.
  The quotient by a zero \<open>warp\<close> is an infinity or not a number, outside the 64-bit integers.
  The warp factor is a real number: the values infinity and not-a-number of the flag
  \<^verbatim>\<open>--warp\<close> are outside the model.
\<close>

definition warp_quotient :: "Duration \<Rightarrow> real \<Rightarrow> real" where
  "warp_quotient delta warp = float64_round (float64_of_int64 delta / warp)"

definition warp_delta :: "Duration \<Rightarrow> real \<Rightarrow> Duration" where
  "warp_delta delta warp =
     (if warp = 0 then - (2 ^ 63) else int64_of_float64 (warp_quotient delta warp))"

section \<open>The scheduler\<close>

text \<open>\<^verbatim>\<open>minTime\<close>: the loop over the emitters with its variable \<open>first\<close>, the zero time at the start.\<close>

definition minTime :: "Emitter list \<Rightarrow> Time" where
  "minTime es =
     foldl (\<lambda>first e. if IsZero first \<or> Before (Emitter_Earliest e) first
                        then Emitter_Earliest e else first) 0 es"

text \<open>
  \<^verbatim>\<open>startEmitter\<close>, the driver of one feed.  The result is the list of the calls of
  \<^verbatim>\<open>Emit\<close> in their order, each with the time \<^verbatim>\<open>emitTime\<close> its timer was set for and the
  cursor of the feed at the call, and the way the loop ends: \<open>Done\<close> when \<^verbatim>\<open>Next\<close> returns
  false, \<open>PanicDelta\<close> at the \<^verbatim>\<open>panic\<close> of line 274, \<open>PanicIndex\<close> when \<^verbatim>\<open>Time\<close> reads beyond
  the slice.  The error of \<^verbatim>\<open>Emit\<close> is only printed, and what \<^verbatim>\<open>Emit\<close> writes is outside this
  model: the list holds the calls the loop makes as long as each call returns.
\<close>

datatype Outcome = Done | PanicDelta | PanicIndex

function startEmitter :: "Emitter \<Rightarrow> Time \<Rightarrow> Time \<Rightarrow> real \<Rightarrow> (Time \<times> int) list \<times> Outcome" where
  "startEmitter e cruiseStart replayStart warp =
     (if \<not> fst (Emitter_Next e) then ([], Done)
      else
        (let e' = snd (Emitter_Next e) in
         case Emitter_Time e' of
           None \<Rightarrow> ([], PanicIndex)
         | Some t \<Rightarrow>
             if Before t cruiseStart then startEmitter e' cruiseStart replayStart warp
             else
               (let delta = warp_delta (Sub t cruiseStart) warp in
                if delta < 0 then ([], PanicDelta)
                else
                  (let rest = startEmitter e' cruiseStart replayStart warp
                   in ((Add replayStart delta, cursor e') # fst rest, snd rest)))))"
  by pat_completeness auto
termination
proof (relation "measure (\<lambda>(e, cruiseStart, replayStart, warp). nat (Emitter_Len e - cursor e))")
  show "wf (measure (\<lambda>(e, cruiseStart, replayStart, warp). nat (Emitter_Len e - cursor e)))"
    by simp
next
  fix e :: Emitter and cruiseStart replayStart :: Time and warp :: real and x :: Emitter and t :: Time
  assume "\<not> \<not> fst (Emitter_Next e)" and "x = snd (Emitter_Next e)"
  then show "((x, cruiseStart, replayStart, warp), (e, cruiseStart, replayStart, warp))
       \<in> measure (\<lambda>(e, cruiseStart, replayStart, warp). nat (Emitter_Len e - cursor e))"
    by (cases e) (auto simp: Next_def Len_def split: if_splits)
next
  fix e :: Emitter and cruiseStart replayStart :: Time and warp :: real and x :: Emitter and t :: Time
    and delta :: Duration
  assume "\<not> \<not> fst (Emitter_Next e)" and "x = snd (Emitter_Next e)"
  then show "((x, cruiseStart, replayStart, warp), (e, cruiseStart, replayStart, warp))
       \<in> measure (\<lambda>(e, cruiseStart, replayStart, warp). nat (Emitter_Len e - cursor e))"
    by (cases e) (auto simp: Next_def Len_def split: if_splits)
qed

declare startEmitter.simps [simp del]

text \<open>
  The part of \<^verbatim>\<open>Run\<close> that schedules (lines 196-214): \<open>start\<close> is the time of the flag
  \<^verbatim>\<open>--start\<close>, the zero time without the flag, and \<open>now\<close> the value of \<^verbatim>\<open>time.Now()\<close>.  The
  drivers run one beside the other; the result lists what each does when the process is not
  ended by the panic of another.
\<close>

definition cruise_origin :: "Time \<Rightarrow> Emitter list \<Rightarrow> Time" where
  "cruise_origin start emitters = (if IsZero start then minTime emitters else start)"

definition replay_origin :: "Time \<Rightarrow> Time" where
  "replay_origin now = Add now (5 * Second)"

definition Run :: "Time \<Rightarrow> Time \<Rightarrow> real \<Rightarrow> Emitter list \<Rightarrow> ((Time \<times> int) list \<times> Outcome) list" where
  "Run now start warp emitters =
     map (\<lambda>e. startEmitter e (cruise_origin start emitters) (replay_origin now) warp) emitters"

section \<open>Closing the feeds\<close>

text \<open>
  \<^verbatim>\<open>(*os.File).Close\<close> and \<^verbatim>\<open>net.Conn.Close\<close> of the standard library close the object and
  return no error; called on an object that was closed before, they return an error and
  change nothing.
\<close>

definition os_File_Close :: "osFile \<Rightarrow> string option \<times> osFile" where
  "os_File_Close f =
     (if fclosed f then (Some ''file already closed'', f) else (None, f\<lparr>fclosed := True\<rparr>))"

definition net_Conn_Close :: "netConn \<Rightarrow> string option \<times> netConn" where
  "net_Conn_Close c =
     (if cclosed c then (Some ''use of closed network connection'', c)
      else (None, c\<lparr>cclosed := True\<rparr>))"

text \<open>
  The four methods \<^verbatim>\<open>Close\<close>, each returning its error and the struct it leaves.  The
  assignment \<^verbatim>\<open>s = nil\<close> of \<^verbatim>\<open>Sfl.Close\<close> and \<^verbatim>\<open>SeaLog.Close\<close> sets the receiver, a variable
  of the method, and changes nothing of the struct: the field \<^verbatim>\<open>file\<close> keeps the closed file.

  \<^verbatim>\<open>Sfl.Close\<close> calls \<^verbatim>\<open>s.Close()\<close>, itself, when the field \<^verbatim>\<open>file\<close> is set (line 105 of
  the file of \<^verbatim>\<open>NewSfl\<close>); the value \<open>None\<close> of the model is a call that never returns.
\<close>

definition Evt_Close :: "Evt \<Rightarrow> string option \<times> Evt" where
  "Evt_Close e = (None, e)"

partial_function (option) Sfl_Close :: "Sfl \<Rightarrow> (string option \<times> Sfl) option" where
  "Sfl_Close s =
     (if outFile s \<noteq> None
      then Option.bind (Sfl_Close s) (\<lambda>r. Some (fst r, snd r))
      else Some (None, s))"

definition SeaLog_Close :: "SeaLog \<Rightarrow> string option \<times> SeaLog" where
  "SeaLog_Close s =
     (case outFile s of
        Some f \<Rightarrow> (fst (os_File_Close f), s\<lparr>outFile := Some (snd (os_File_Close f))\<rparr>)
      | None \<Rightarrow> (None, s))"

definition Underway_Close :: "Underway \<Rightarrow> string option \<times> Underway" where
  "Underway_Close u =
     (case conn u of
        Some c \<Rightarrow>
          (case fst (net_Conn_Close c) of
             Some err \<Rightarrow> (Some (''underway: '' @ err), u\<lparr>conn := Some (snd (net_Conn_Close c))\<rparr>)
           | None \<Rightarrow> (None, u\<lparr>conn := Some (snd (net_Conn_Close c))\<rparr>))
      | None \<Rightarrow> (None, u))"

fun Emitter_Close :: "Emitter \<Rightarrow> (string option \<times> Emitter) option" where
  "Emitter_Close (EvtE e) = Some (map_prod id EvtE (Evt_Close e))"
| "Emitter_Close (SflE s) = map_option (map_prod id SflE) (Sfl_Close s)"
| "Emitter_Close (UnderwayE u) = Some (map_prod id UnderwayE (Underway_Close u))"
| "Emitter_Close (SeaLogE s) = Some (map_prod id SeaLogE (SeaLog_Close s))"

section \<open>Some timestamps\<close>

text \<open>File names and time stamps of 2021-05-01, parsed, and their instants.\<close>

lemma parse_example:
  "time_Parse_RFC3339 ''2021-05-01T10:00:00+00:00'' = Some (Date 2021 5 1 10 0 0 0)"
  by (simp add: time_Parse_RFC3339_def isDigit_def fraction_def nanoseconds_def atoi_def
                daysIn_def isLeap_def Let_def)

lemma parse_example2:
  "time_Parse_RFC3339 ''2021-05-01T10:03:00+00:00'' = Some (Date 2021 5 1 10 3 0 0)"
  by (simp add: time_Parse_RFC3339_def isDigit_def fraction_def nanoseconds_def atoi_def
                daysIn_def isLeap_def Let_def)

lemma file_time_0:
  "timeFromFilename ''2021-05-01T10-00-00+00-00'' = Some (Date 2021 5 1 10 0 0 0)"
  by (simp add: timeFromFilename_def submatches_def filepath_Base_def time_Parse_RFC3339_def
        isDigit_def fraction_def nanoseconds_def atoi_def daysIn_def isLeap_def Let_def)

lemma file_time_5:
  "timeFromFilename ''2021-05-01T10-00-05+00-00'' = Some (Date 2021 5 1 10 0 5 0)"
  by (simp add: timeFromFilename_def submatches_def filepath_Base_def time_Parse_RFC3339_def
        isDigit_def fraction_def nanoseconds_def atoi_def daysIn_def isLeap_def Let_def)

lemma Date_0_3: "Date 2021 5 1 10 0 0 0 < Date 2021 5 1 10 3 0 0"
  by (simp add: Date_def daysSinceEpoch_def daysBefore_def isLeap_def)

lemma Date_0_5: "Date 2021 5 1 10 0 0 0 < Date 2021 5 1 10 0 5 0"
  by (simp add: Date_def daysSinceEpoch_def daysBefore_def isLeap_def)

lemma Date_2021: "Date 2021 5 1 10 0 0 0 = 63755460000000000000"
  by (simp add: Date_def daysSinceEpoch_def daysBefore_def isLeap_def)

lemma Date_2021_5: "Date 2021 5 1 10 0 5 0 = 63755460005000000000"
  by (simp add: Date_def daysSinceEpoch_def daysBefore_def isLeap_def)


lemma Date_2021_half: "Date 2021 5 1 10 0 0 500000000 = 63755460000500000000"
  by (simp add: Date_def daysSinceEpoch_def daysBefore_def isLeap_def)

section \<open>Properties of the coalescing step\<close>

text \<open>The groups closed so far are only ever appended to.\<close>

lemma coalesce_loop_acc:
  "coalesce_loop t lines newdata rs = newdata @ coalesce_loop t lines [] rs"
proof (induction rs arbitrary: t lines newdata)
  case Nil
  show ?case by simp
next
  case (Cons r rs)
  show ?case
  proof (cases "Truncate (time r) Second = t")
    case True
    then show ?thesis using Cons.IH [of t "lines @ [data r]" newdata] by simp
  next
    case False
    then show ?thesis
      using Cons.IH [of "Truncate (time r) Second" "[data r]"
                        "newdata @ [\<lparr>time = t, data = strings_Join lines ''\<newline>''\<rparr>]"]
            Cons.IH [of "Truncate (time r) Second" "[data r]"
                        "[\<lparr>time = t, data = strings_Join lines ''\<newline>''\<rparr>]"]
      by simp
  qed
qed

lemma coalesce_loop_run:
  "\<forall>r \<in> set rs. Truncate (time r) Second = t \<Longrightarrow>
   coalesce_loop t lines [] rs = [\<lparr>time = t, data = strings_Join (lines @ map data rs) ''\<newline>''\<rparr>]"
  by (induction rs arbitrary: lines) auto

lemma coalesce_loop_split:
  "(if xs = [] then t else Truncate (time (last xs)) Second) \<noteq> Truncate (time y) Second \<Longrightarrow>
   coalesce_loop t lines [] (xs @ y # ys) = coalesce_loop t lines [] xs @ coalesce (y # ys)"
proof (induction xs arbitrary: t lines)
  case Nil
  then show ?case
    using coalesce_loop_acc [of "Truncate (time y) Second" "[data y]" "[\<lparr>time = t, data = strings_Join lines ''\<newline>''\<rparr>]" ys]
    by (simp add: coalesce_def)
next
  case (Cons x xs)
  let ?s = "Truncate (time x) Second"
  have last: "(if xs = [] then ?s else Truncate (time (last xs)) Second) \<noteq> Truncate (time y) Second"
    using Cons.prems by (simp split: if_splits)
  show ?case
  proof (cases "?s = t")
    case True
    have "(if xs = [] then t else Truncate (time (last xs)) Second) \<noteq> Truncate (time y) Second"
      using last True by (cases "xs = []") auto
    then show ?thesis using Cons.IH [of t "lines @ [data x]"] True by simp
  next
    case False
    have "coalesce_loop t lines [] ((x # xs) @ y # ys) =
          \<lparr>time = t, data = strings_Join lines ''\<newline>''\<rparr> # coalesce_loop ?s [data x] [] (xs @ y # ys)"
      using False coalesce_loop_acc [of ?s "[data x]" "[\<lparr>time = t, data = strings_Join lines ''\<newline>''\<rparr>]" "xs @ y # ys"]
      by simp
    also have "coalesce_loop ?s [data x] [] (xs @ y # ys) = coalesce_loop ?s [data x] [] xs @ coalesce (y # ys)"
      using Cons.IH [of ?s "[data x]"] last by simp
    also have "\<lparr>time = t, data = strings_Join lines ''\<newline>''\<rparr> # coalesce_loop ?s [data x] [] xs @ coalesce (y # ys)
       = coalesce_loop t lines [] (x # xs) @ coalesce (y # ys)"
      using False coalesce_loop_acc [of ?s "[data x]" "[\<lparr>time = t, data = strings_Join lines ''\<newline>''\<rparr>]" xs]
      by simp
    finally show ?thesis .
  qed
qed

lemma coalesce_append:
  assumes "xs \<noteq> []" "ys \<noteq> []"
    and "Truncate (time (last xs)) Second \<noteq> Truncate (time (hd ys)) Second"
  shows "coalesce (xs @ ys) = coalesce xs @ coalesce ys"
proof -
  obtain x xs' where xs: "xs = x # xs'" using assms(1) by (cases xs) auto
  obtain y ys' where ys: "ys = y # ys'" using assms(2) by (cases ys) auto
  have "(if xs' = [] then Truncate (time x) Second else Truncate (time (last xs')) Second)
          \<noteq> Truncate (time y) Second"
    using assms(3) xs ys by (simp split: if_splits)
  then show ?thesis
    using coalesce_loop_split [of xs' "Truncate (time x) Second" y "[data x]" ys']
    by (simp add: xs ys coalesce_def)
qed

lemma coalesce_run:
  assumes "run \<noteq> []" "\<forall>r \<in> set run. Truncate (time r) Second = s"
  shows "coalesce run = [\<lparr>time = s, data = strings_Join (map data run) ''\<newline>''\<rparr>]"
proof -
  obtain x xs where run: "run = x # xs" using assms(1) by (cases run) auto
  then show ?thesis
    using assms(2) coalesce_loop_run [of xs s "[data x]"] by (simp add: coalesce_def)
qed

lemma coalesce_unique:
  "distinct (map (\<lambda>r. Truncate (time r) Second) rs) \<Longrightarrow>
   coalesce rs = map (\<lambda>r. \<lparr>time = Truncate (time r) Second, data = data r\<rparr>) rs"
proof (induction rs)
  case Nil
  show ?case by (simp add: coalesce_def)
next
  case (Cons r rs)
  show ?case
  proof (cases rs)
    case Nil
    then show ?thesis by (simp add: coalesce_def)
  next
    case (Cons r' rs')
    have "coalesce ([r] @ rs) = coalesce [r] @ coalesce rs"
      using Cons.prems Cons by (intro coalesce_append) auto
    then show ?thesis using Cons.IH Cons.prems by (simp add: coalesce_def)
  qed
qed

lemma Truncate_mono: "a \<le> b \<Longrightarrow> Truncate a Second \<le> Truncate b Second"
proof -
  assume ab: "a \<le> b"
  have "a - a mod Second = Second * (a div Second)" "b - b mod Second = Second * (b div Second)"
    by (simp_all add: minus_mod_eq_mult_div)
  moreover have "a div Second \<le> b div Second" using ab by (simp add: zdiv_mono1 Second_def)
  ultimately show ?thesis by (simp add: Truncate_def Second_def)
qed

lemma coalesce_loop_sorted:
  "sorted (map time rs) \<Longrightarrow> \<forall>r \<in> set rs. t \<le> Truncate (time r) Second \<Longrightarrow>
   sorted (map time (coalesce_loop t lines [] rs))
   \<and> (\<forall>r \<in> set (coalesce_loop t lines [] rs). t \<le> time r)"
proof (induction rs arbitrary: t lines)
  case Nil
  show ?case by simp
next
  case (Cons r rs)
  let ?s = "Truncate (time r) Second"
  show ?case
  proof (cases "?s = t")
    case True
    then show ?thesis using Cons.IH [of t "lines @ [data r]"] Cons.prems by simp
  next
    case False
    have later: "\<forall>r' \<in> set rs. ?s \<le> Truncate (time r') Second"
      using Cons.prems(1) by (auto intro: Truncate_mono)
    have ih: "sorted (map time (coalesce_loop ?s [data r] [] rs))
       \<and> (\<forall>r' \<in> set (coalesce_loop ?s [data r] [] rs). ?s \<le> time r')"
      using Cons.IH [of ?s "[data r]"] Cons.prems(1) later by simp
    have ts: "t \<le> ?s" using Cons.prems(2) by simp
    have eq: "coalesce_loop t lines [] (r # rs)
            = \<lparr>time = t, data = strings_Join lines ''\<newline>''\<rparr> # coalesce_loop ?s [data r] [] rs"
      using False coalesce_loop_acc [of ?s "[data r]" "[\<lparr>time = t, data = strings_Join lines ''\<newline>''\<rparr>]" rs]
      by simp
    show ?thesis unfolding eq using ih ts by fastforce
  qed
qed

lemma coalesce_sorted: "sorted (map time rs) \<Longrightarrow> sorted (map time (coalesce rs))"
proof (cases rs)
  case Nil
  then show ?thesis by (simp add: coalesce_def)
next
  case (Cons r rest)
  assume "sorted (map time rs)"
  then have "sorted (map time rest)" "\<forall>r' \<in> set rest. Truncate (time r) Second \<le> Truncate (time r') Second"
    using Cons by (auto intro: Truncate_mono)
  then show ?thesis
    using coalesce_loop_sorted [of rest "Truncate (time r) Second" "[data r]"] Cons
    by (simp add: coalesce_def)
qed

lemma Truncate_whole: "Truncate t Second mod Second = 0"
  by (simp add: Truncate_def Second_def)

lemma Truncate_fixed: "t mod Second = 0 \<Longrightarrow> Truncate t Second = t"
  by (simp add: Truncate_def)

lemma coalesce_loop_strict:
  "sorted (map time rs) \<Longrightarrow> \<forall>r \<in> set rs. t \<le> Truncate (time r) Second \<Longrightarrow> t mod Second = 0 \<Longrightarrow>
   sorted_wrt (<) (map time (coalesce_loop t lines [] rs))
   \<and> (\<forall>r \<in> set (coalesce_loop t lines [] rs). t \<le> time r \<and> time r mod Second = 0)"
proof (induction rs arbitrary: t lines)
  case Nil
  then show ?case by simp
next
  case (Cons r rs)
  let ?s = "Truncate (time r) Second"
  show ?case
  proof (cases "?s = t")
    case True
    then show ?thesis using Cons.IH [of t "lines @ [data r]"] Cons.prems by simp
  next
    case False
    have later: "\<forall>r' \<in> set rs. ?s \<le> Truncate (time r') Second"
      using Cons.prems(1) by (auto intro: Truncate_mono)
    have ih: "sorted_wrt (<) (map time (coalesce_loop ?s [data r] [] rs))
       \<and> (\<forall>r' \<in> set (coalesce_loop ?s [data r] [] rs). ?s \<le> time r' \<and> time r' mod Second = 0)"
      using Cons.IH [of ?s "[data r]"] Cons.prems(1) later by (simp add: Truncate_whole)
    have ts: "t < ?s" using Cons.prems(2) False by simp
    have eq: "coalesce_loop t lines [] (r # rs)
            = \<lparr>time = t, data = strings_Join lines ''\<newline>''\<rparr> # coalesce_loop ?s [data r] [] rs"
      using False coalesce_loop_acc [of ?s "[data r]" "[\<lparr>time = t, data = strings_Join lines ''\<newline>''\<rparr>]" rs]
      by simp
    show ?thesis unfolding eq using ih ts Cons.prems(3) by fastforce
  qed
qed

lemma coalesce_twice:
  assumes "sorted (map time rs)"
  shows "coalesce (coalesce rs) = coalesce rs"
proof (cases rs)
  case Nil
  then show ?thesis by (simp add: coalesce_def)
next
  case (Cons r rest)
  have "sorted (map time rest)" "\<forall>r' \<in> set rest. Truncate (time r) Second \<le> Truncate (time r') Second"
    using assms Cons by (auto intro: Truncate_mono)
  then have strict: "sorted_wrt (<) (map time (coalesce rs))"
    and whole: "\<forall>r' \<in> set (coalesce rs). time r' mod Second = 0"
    using coalesce_loop_strict [of rest "Truncate (time r) Second" "[data r]"] Cons
    by (simp_all add: coalesce_def Truncate_whole)
  have same: "map (\<lambda>r. Truncate (time r) Second) (coalesce rs) = map time (coalesce rs)"
    using whole by (intro map_cong) (auto simp: Truncate_fixed)
  have "distinct (map time (coalesce rs))"
    using strict by (simp add: strict_sorted_iff)
  then have d: "distinct (map (\<lambda>r. Truncate (time r) Second) (coalesce rs))"
    by (simp only: same)
  have "coalesce (coalesce rs) = map (\<lambda>r. \<lparr>time = Truncate (time r) Second, data = data r\<rparr>) (coalesce rs)"
    using d by (rule coalesce_unique)
  also have "\<dots> = map (\<lambda>r. r) (coalesce rs)"
    using whole by (intro map_cong) (auto simp: Truncate_fixed)
  finally show ?thesis by simp
qed

text \<open>
  Claim C1, as the code has it.  Coalescing a list whose records are already unique per
  truncated second keeps the number of records and every payload, and replaces each time by
  its truncation to the whole second (lines 81, 87, 90 and 93 store \<open>t\<close>, the truncated
  time); it is the identity exactly when, in addition, every time is a whole second.  A
  maximal run of records sharing one truncated second \<open>s\<close> (the record before it and the
  record after it, if any, lie in other seconds) becomes exactly one record, stamped \<open>s\<close>,
  whose payload is the lines of the run joined by a line break in their order.  Coalescing
  the result of coalescing a list sorted by time changes nothing.
\<close>

theorem coalesce_unique_and_runs:
  "(distinct (map (\<lambda>r. Truncate (time r) Second) rs) \<longrightarrow>
      coalesce rs = map (\<lambda>r. \<lparr>time = Truncate (time r) Second, data = data r\<rparr>) rs)
   \<and> (distinct (map (\<lambda>r. Truncate (time r) Second) rs) \<and> (\<forall>r \<in> set rs. time r mod Second = 0) \<longrightarrow>
      coalesce rs = rs)
   \<and> (run \<noteq> [] \<and> (\<forall>r \<in> set run. Truncate (time r) Second = s)
        \<and> (pre = [] \<or> Truncate (time (last pre)) Second \<noteq> s)
        \<and> (post = [] \<or> Truncate (time (hd post)) Second \<noteq> s) \<longrightarrow>
      coalesce (pre @ run @ post) =
        coalesce pre @ [\<lparr>time = s, data = strings_Join (map data run) ''\<newline>''\<rparr>] @ coalesce post)
   \<and> (sorted (map time rs) \<longrightarrow> coalesce (coalesce rs) = coalesce rs)"
proof (intro conjI impI)
  assume "sorted (map time rs)"
  then show "coalesce (coalesce rs) = coalesce rs" by (rule coalesce_twice)
next
  assume "distinct (map (\<lambda>r. Truncate (time r) Second) rs)"
  then show "coalesce rs = map (\<lambda>r. \<lparr>time = Truncate (time r) Second, data = data r\<rparr>) rs"
    by (rule coalesce_unique)
next
  assume a: "distinct (map (\<lambda>r. Truncate (time r) Second) rs) \<and> (\<forall>r \<in> set rs. time r mod Second = 0)"
  then have "coalesce rs = map (\<lambda>r. \<lparr>time = Truncate (time r) Second, data = data r\<rparr>) rs"
    by (simp add: coalesce_unique)
  also have "\<dots> = map (\<lambda>r. r) rs"
    using a by (intro map_cong) (auto simp: Truncate_def)
  finally show "coalesce rs = rs" by simp
next
  assume a: "run \<noteq> [] \<and> (\<forall>r \<in> set run. Truncate (time r) Second = s)
        \<and> (pre = [] \<or> Truncate (time (last pre)) Second \<noteq> s)
        \<and> (post = [] \<or> Truncate (time (hd post)) Second \<noteq> s)"
  let ?m = "\<lparr>time = s, data = strings_Join (map data run) ''\<newline>''\<rparr>"
  have run: "coalesce run = [?m]" using a by (simp add: coalesce_run)
  have hd_run: "Truncate (time (hd run)) Second = s" and last_run: "Truncate (time (last run)) Second = s"
    using a by auto
  have right: "coalesce (run @ post) = [?m] @ coalesce post"
  proof (cases "post = []")
    case True
    then show ?thesis using run by (simp add: coalesce_def)
  next
    case False
    then show ?thesis
      using a last_run run coalesce_append [of run post] by auto
  qed
  show "coalesce (pre @ run @ post) = coalesce pre @ [?m] @ coalesce post"
  proof (cases "pre = []")
    case True
    then show ?thesis using right by (simp add: coalesce_def)
  next
    case False
    have "hd (run @ post) = hd run" using a by simp
    then have "coalesce (pre @ (run @ post)) = coalesce pre @ coalesce (run @ post)"
      using False a hd_run by (intro coalesce_append) auto
    then show ?thesis using right by simp
  qed
qed

theorem coalesce_unique_and_runs_witness:
  "coalesce [\<lparr>time = 1500000000, data = ''a''\<rparr>, \<lparr>time = 2100000000, data = ''b''\<rparr>]
     = [\<lparr>time = 1000000000, data = ''a''\<rparr>, \<lparr>time = 2000000000, data = ''b''\<rparr>]
   \<and> coalesce [\<lparr>time = 1000000000, data = ''a''\<rparr>, \<lparr>time = 2000000000, data = ''b''\<rparr>]
     = [\<lparr>time = 1000000000, data = ''a''\<rparr>, \<lparr>time = 2000000000, data = ''b''\<rparr>]
   \<and> coalesce ([\<lparr>time = 1500000000, data = ''a''\<rparr>]
        @ [\<lparr>time = 2100000000, data = ''x''\<rparr>, \<lparr>time = 2900000000, data = ''y''\<rparr>]
        @ [\<lparr>time = 3000000000, data = ''z''\<rparr>])
     = [\<lparr>time = 1000000000, data = ''a''\<rparr>, \<lparr>time = 2000000000, data = ''x\<newline>y''\<rparr>,
        \<lparr>time = 3000000000, data = ''z''\<rparr>]"
  using coalesce_unique_and_runs
          [of "[\<lparr>time = 1500000000, data = ''a''\<rparr>, \<lparr>time = 2100000000, data = ''b''\<rparr>]"
              "[\<lparr>time = 2100000000, data = ''x''\<rparr>, \<lparr>time = 2900000000, data = ''y''\<rparr>]"
              2000000000
              "[\<lparr>time = 1500000000, data = ''a''\<rparr>]"
              "[\<lparr>time = 3000000000, data = ''z''\<rparr>]"]
        coalesce_unique_and_runs
          [of "[\<lparr>time = 1000000000, data = ''a''\<rparr>, \<lparr>time = 2000000000, data = ''b''\<rparr>]"
              "[\<lparr>time = 2100000000, data = ''x''\<rparr>]" 2000000000 "[]" "[]"]
  by (simp add: coalesce_def Truncate_def Second_def)

text \<open>
  The claim as the specification words it fails: a single record stamped 10:00:00.5 is unique
  in its second, and coalescing changes its time to 10:00:00.
\<close>

theorem coalesce_noop_counterexample:
  "distinct (map (\<lambda>r. Truncate (time r) Second) [\<lparr>time = Date 2021 5 1 10 0 0 500000000, data = ''a''\<rparr>])
   \<and> coalesce [\<lparr>time = Date 2021 5 1 10 0 0 500000000, data = ''a''\<rparr>]
       = [\<lparr>time = Date 2021 5 1 10 0 0 0, data = ''a''\<rparr>]
   \<and> coalesce [\<lparr>time = Date 2021 5 1 10 0 0 500000000, data = ''a''\<rparr>]
       \<noteq> [\<lparr>time = Date 2021 5 1 10 0 0 500000000, data = ''a''\<rparr>]"
  by (simp add: coalesce_def Truncate_def Second_def Date_2021 Date_2021_half)

section \<open>Properties of the sort\<close>

lemma mset_insert_stable: "mset (insert_stable lessf x ys) = add_mset x (mset ys)"
  by (induction ys) auto

lemma set_insert_stable: "set (insert_stable lessf x ys) = insert x (set ys)"
  by (induction ys) auto

lemma sorted_insert_stable:
  fixes f :: "'a \<Rightarrow> int"
  shows "sorted (map f ys) \<Longrightarrow> sorted (map f (insert_stable (\<lambda>a b. f a < f b) x ys))"
  by (induction ys) (auto simp: set_insert_stable)

lemma filter_insert_stable:
  fixes f :: "'a \<Rightarrow> int"
  shows "sorted (map f ys) \<Longrightarrow>
    filter (\<lambda>y. f y = k) (insert_stable (\<lambda>a b. f a < f b) x ys) =
    filter (\<lambda>y. f y = k) ys @ (if f x = k then [x] else [])"
proof (induction ys)
  case Nil
  show ?case by simp
next
  case (Cons y ys)
  show ?case
  proof (cases "f x < f y")
    case True
    have "\<forall>z \<in> set ys. f x < f z" using Cons.prems True by auto
    then have "filter (\<lambda>y. f y = f x) ys = []" by (auto simp: filter_empty_conv)
    then show ?thesis using True by auto
  next
    case False
    then show ?thesis using Cons by auto
  qed
qed

lemma foldl_insert_stable:
  fixes f :: "'a \<Rightarrow> int"
  shows "sorted (map f acc) \<Longrightarrow>
    sorted (map f (foldl (\<lambda>acc x. insert_stable (\<lambda>a b. f a < f b) x acc) acc xs))
    \<and> filter (\<lambda>y. f y = k) (foldl (\<lambda>acc x. insert_stable (\<lambda>a b. f a < f b) x acc) acc xs)
        = filter (\<lambda>y. f y = k) acc @ filter (\<lambda>y. f y = k) xs
    \<and> mset (foldl (\<lambda>acc x. insert_stable (\<lambda>a b. f a < f b) x acc) acc xs) = mset acc + mset xs"
proof (induction xs arbitrary: acc)
  case Nil
  then show ?case by simp
next
  case (Cons x xs)
  have s: "sorted (map f (insert_stable (\<lambda>a b. f a < f b) x acc))"
    using Cons.prems by (rule sorted_insert_stable)
  show ?case
    using Cons.IH [OF s] Cons.prems
    by (simp add: filter_insert_stable mset_insert_stable)
qed

lemma by_time_eq: "by_time = (\<lambda>a b. time a < time b)"
  by (simp add: by_time_def Before_def fun_eq_iff)

lemma SliceStable_by_time:
  "sorted (map time (SliceStable by_time xs))"
  "filter (\<lambda>r. time r = k) (SliceStable by_time xs) = filter (\<lambda>r. time r = k) xs"
  "mset (SliceStable by_time xs) = mset xs"
  using foldl_insert_stable [where f = time and acc = "[]" and k = k and xs = xs]
  by (simp_all add: SliceStable_def by_time_eq)

section \<open>Properties of the cursor\<close>

lemma Emitter_Next_step:
  "Emitter_Next e = (b, e') \<Longrightarrow>
     record_times e' = record_times e \<and> Emitter_Len e' = Emitter_Len e \<and> b = (cursor e + 1 < Emitter_Len e)
     \<and> (b \<longrightarrow> cursor e' = cursor e + 1 \<and> cursor e' < Emitter_Len e') \<and> (\<not> b \<longrightarrow> e' = e)"
  by (cases e) (auto simp: Next_def Len_def split: if_splits)

lemma Next_times_count:
  "- 1 \<le> cursor e \<Longrightarrow> cursor e < Emitter_Len e \<Longrightarrow>
   fst (Next_times n e) =
     replicate (min n (nat (Emitter_Len e - 1 - cursor e))) True
     @ replicate (n - nat (Emitter_Len e - 1 - cursor e)) False
   \<and> cursor (snd (Next_times n e)) = cursor e + int (min n (nat (Emitter_Len e - 1 - cursor e)))
   \<and> Emitter_Len (snd (Next_times n e)) = Emitter_Len e"
proof (induction n arbitrary: e)
  case 0
  show ?case by simp
next
  case (Suc n)
  obtain b e' where step: "Emitter_Next e = (b, e')" by (cases "Emitter_Next e")
  note facts = Emitter_Next_step [OF step]
  show ?case
  proof (cases b)
    case True
    then have c: "cursor e' = cursor e + 1" "cursor e' < Emitter_Len e'" "Emitter_Len e' = Emitter_Len e"
      using facts by auto
    have pos: "0 < nat (Emitter_Len e - 1 - cursor e)" using facts True by auto
    have eq: "nat (Emitter_Len e' - 1 - cursor e') = nat (Emitter_Len e - 1 - cursor e) - 1"
      using c by auto
    have ih: "fst (Next_times n e') =
       replicate (min n (nat (Emitter_Len e' - 1 - cursor e'))) True
       @ replicate (n - nat (Emitter_Len e' - 1 - cursor e')) False
     \<and> cursor (snd (Next_times n e')) = cursor e' + int (min n (nat (Emitter_Len e' - 1 - cursor e')))
     \<and> Emitter_Len (snd (Next_times n e')) = Emitter_Len e'"
      using Suc.IH [of e'] c Suc.prems by simp
    obtain k where k: "nat (Emitter_Len e - 1 - cursor e) = Suc k" using pos by (cases "nat (Emitter_Len e - 1 - cursor e)") auto
    show ?thesis
      using ih step True c eq k by (simp add: Let_def)
  next
    case False
    then have e': "e' = e" and z: "nat (Emitter_Len e - 1 - cursor e) = 0" using facts by auto
    have ih: "fst (Next_times n e) =
       replicate (min n (nat (Emitter_Len e - 1 - cursor e))) True
       @ replicate (n - nat (Emitter_Len e - 1 - cursor e)) False
     \<and> cursor (snd (Next_times n e)) = cursor e + int (min n (nat (Emitter_Len e - 1 - cursor e)))
     \<and> Emitter_Len (snd (Next_times n e)) = Emitter_Len e"
      using Suc.IH [of e] Suc.prems by simp
    show ?thesis
      using ih step False e' z by (simp add: Let_def replicate_app_Cons_same)
  qed
qed

text \<open>
  Claim C9.  A call of \<^verbatim>\<open>Next\<close> changes nothing but the cursor; it returns true exactly when
  the cursor is not yet on the last record, and then moves the cursor forward by one, to a
  position below the number of records; when it returns false it changes nothing, so that
  every later call returns false as well.  From the state a constructor leaves (cursor
  \<open>- 1\<close>), \<open>n\<close> calls return true \<^verbatim>\<open>Len()\<close> times (or \<open>n\<close> times, if \<open>n\<close> is smaller) and
  false from then on.
\<close>

theorem Next_moves_forward:
  "(Emitter_Next e = (b, e') \<longrightarrow>
      record_times e' = record_times e \<and> Emitter_Len e' = Emitter_Len e
      \<and> b = (cursor e + 1 < Emitter_Len e)
      \<and> (b \<longrightarrow> cursor e' = cursor e + 1 \<and> cursor e' < Emitter_Len e')
      \<and> (\<not> b \<longrightarrow> e' = e \<and> Emitter_Next e' = (False, e')))
   \<and> (cursor e = - 1 \<longrightarrow>
      fst (Next_times n e) =
        replicate (min n (nat (Emitter_Len e))) True @ replicate (n - nat (Emitter_Len e)) False
      \<and> length (filter (\<lambda>b. b) (fst (Next_times n e))) = min n (nat (Emitter_Len e))
      \<and> cursor (snd (Next_times n e)) = int (min n (nat (Emitter_Len e))) - 1)"
proof (intro conjI impI)
  assume step: "Emitter_Next e = (b, e')"
  note facts = Emitter_Next_step [OF step]
  show "record_times e' = record_times e" "Emitter_Len e' = Emitter_Len e" "b = (cursor e + 1 < Emitter_Len e)"
    using facts by auto
  show "cursor e' = cursor e + 1" if b using facts that by auto
  show "cursor e' < Emitter_Len e'" if b using facts that by auto
  show "e' = e" if "\<not> b" using facts that by auto
  show "Emitter_Next e' = (False, e')" if "\<not> b" using facts that step by auto
next
  assume fresh: "cursor e = - 1"
  have len: "0 \<le> Emitter_Len e" by (cases e) (auto simp: Len_def)
  then have "- 1 \<le> cursor e" "cursor e < Emitter_Len e" using fresh by auto
  note count = Next_times_count [OF this, of n]
  have eq: "nat (Emitter_Len e - 1 - cursor e) = nat (Emitter_Len e)" using fresh by simp
  show "fst (Next_times n e) =
        replicate (min n (nat (Emitter_Len e))) True @ replicate (n - nat (Emitter_Len e)) False"
    using count eq by simp
  then show "length (filter (\<lambda>b. b) (fst (Next_times n e))) = min n (nat (Emitter_Len e))"
    by simp
  show "cursor (snd (Next_times n e)) = int (min n (nat (Emitter_Len e))) - 1"
    using count eq fresh by simp
qed

theorem Next_moves_forward_witness:
  "Emitter_Next (EvtE \<lparr>i = - 1, records = [\<lparr>time = 5, path = ''a''\<rparr>], warnings = [], outDir = ''o''\<rparr>)
     = (True, EvtE \<lparr>i = 0, records = [\<lparr>time = 5, path = ''a''\<rparr>], warnings = [], outDir = ''o''\<rparr>)
   \<and> fst (Next_times 3 (EvtE \<lparr>i = - 1, records = [\<lparr>time = 5, path = ''a''\<rparr>], warnings = [], outDir = ''o''\<rparr>))
     = [True, False, False]"
  using Next_moves_forward
    [of "EvtE \<lparr>i = - 1, records = [\<lparr>time = 5, path = ''a''\<rparr>], warnings = [], outDir = ''o''\<rparr>"
        True
        "EvtE \<lparr>i = 0, records = [\<lparr>time = 5, path = ''a''\<rparr>], warnings = [], outDir = ''o''\<rparr>"
        3]
  by (simp add: Next_def Len_def eval_nat_numeral)

section \<open>Properties of the SFL ingestor\<close>











section \<open>Properties of the cruise-time origin\<close>







section \<open>Properties of the constructors\<close>

lemma SliceStable_order_free:
  assumes "mset xs' = mset xs"
  shows "map time (SliceStable by_time xs') = map time (SliceStable by_time xs)"
proof -
  have "mset (map time (SliceStable by_time xs')) = mset (map time (SliceStable by_time xs))"
    using assms by (simp add: SliceStable_by_time(3))
  then show ?thesis
    using SliceStable_by_time(1) [of xs] SliceStable_by_time(1) [of xs']
    by (metis properties_for_sort)
qed

text \<open>
  Claim C7.  After every constructor that returns a feed, the records are in non-decreasing
  order of time, for every input.  For the EVT, SFL and instrument log feeds the records of
  one time are in the order of discovery (the records before the sort, \<open>evt_files\<close>,
  \<open>sfl_files\<close> and \<open>sealog_scan\<close>).  The underway feed sorts in the same way and then
  coalesces, which keeps the order of time (and joins the lines of a second in their order,
  claim C1).  The times after the sort do not depend on the order of the slice sorted.
\<close>

theorem constructors_sort:
  "sorted (map time (records (NewEvt evtFiles dir)))
   \<and> (\<forall>k. filter (\<lambda>r. time r = k) (records (NewEvt evtFiles dir))
          = filter (\<lambda>r. time r = k) (records (evt_files evtFiles (evt_empty dir))))
   \<and> (NewSfl readFile sflFiles dir = Inr s \<longrightarrow>
        sorted (map time (records s))
        \<and> (\<exists>s0. sfl_files readFile 0 sflFiles (sfl_empty dir) = Inr s0
             \<and> (\<forall>k. filter (\<lambda>r. time r = k) (records s) = filter (\<lambda>r. time r = k) (records s0))))
   \<and> (NewSeaLog opened events scanErr dir = Inr l \<longrightarrow>
        sorted (map time (records l))
        \<and> (\<forall>k. filter (\<lambda>r. time r = k) (records l)
               = filter (\<lambda>r. time r = k) (records (sealog_scan events (sealog_empty dir)))))
   \<and> (NewUnderway dial uopened scanned uscanErr = Inr u \<longrightarrow>
        sorted (map time (records u))
        \<and> (\<exists>c. dial = Inr c
             \<and> records u = coalesce (SliceStable by_time (records (underway_scan 0 scanned (underway_empty c))))
             \<and> sorted (map time (SliceStable by_time (records (underway_scan 0 scanned (underway_empty c)))))
             \<and> (\<forall>k. filter (\<lambda>r. time r = k) (SliceStable by_time (records (underway_scan 0 scanned (underway_empty c))))
                    = filter (\<lambda>r. time r = k) (records (underway_scan 0 scanned (underway_empty c))))))
   \<and> (mset xs' = mset xs \<longrightarrow> map time (SliceStable by_time xs') = map time (SliceStable by_time xs))"
proof (intro conjI impI allI)
  show "sorted (map time (records (NewEvt evtFiles dir)))"
    by (simp add: NewEvt_def Let_def SliceStable_by_time)
  show "filter (\<lambda>r. time r = k) (records (NewEvt evtFiles dir))
          = filter (\<lambda>r. time r = k) (records (evt_files evtFiles (evt_empty dir)))" for k
    by (simp add: NewEvt_def Let_def SliceStable_by_time)
next
  assume a: "NewSfl readFile sflFiles dir = Inr s"
  then obtain s0 where s0: "sfl_files readFile 0 sflFiles (sfl_empty dir) = Inr s0"
    and s: "s = s0\<lparr>records := SliceStable by_time (records s0)\<rparr>"
    by (auto simp: NewSfl_def split: sum.splits)
  show "sorted (map time (records s))" using s by (simp add: SliceStable_by_time)
  show "\<exists>s0. sfl_files readFile 0 sflFiles (sfl_empty dir) = Inr s0
             \<and> (\<forall>k. filter (\<lambda>r. time r = k) (records s) = filter (\<lambda>r. time r = k) (records s0))"
    using s0 s by (simp add: SliceStable_by_time)
next
  assume a: "NewSeaLog opened events scanErr dir = Inr l"
  then have l: "l = (sealog_scan events (sealog_empty dir))
                    \<lparr>records := SliceStable by_time (records (sealog_scan events (sealog_empty dir)))\<rparr>"
    by (auto simp: NewSeaLog_def Let_def split: option.splits)
  show "sorted (map time (records l))" by (subst l) (simp add: SliceStable_by_time)
  show "filter (\<lambda>r. time r = k) (records l)
               = filter (\<lambda>r. time r = k) (records (sealog_scan events (sealog_empty dir)))" for k
    by (subst l) (simp add: SliceStable_by_time)
next
  assume a: "NewUnderway dial uopened scanned uscanErr = Inr u"
  then obtain c where c: "dial = Inr c"
    and u: "records u = coalesce (SliceStable by_time (records (underway_scan 0 scanned (underway_empty c))))"
    by (auto simp: NewUnderway_def Let_def split: sum.splits option.splits)
  show "sorted (map time (records u))"
    unfolding u by (intro coalesce_sorted) (simp add: SliceStable_by_time)
  show "\<exists>c. dial = Inr c
             \<and> records u = coalesce (SliceStable by_time (records (underway_scan 0 scanned (underway_empty c))))
             \<and> sorted (map time (SliceStable by_time (records (underway_scan 0 scanned (underway_empty c)))))
             \<and> (\<forall>k. filter (\<lambda>r. time r = k) (SliceStable by_time (records (underway_scan 0 scanned (underway_empty c))))
                    = filter (\<lambda>r. time r = k) (records (underway_scan 0 scanned (underway_empty c))))"
    using c u by (simp add: SliceStable_by_time)
next
  assume "mset xs' = mset xs"
  then show "map time (SliceStable by_time xs') = map time (SliceStable by_time xs)"
    by (rule SliceStable_order_free)
qed

text \<open>Two EVT files, an SFL file, three log events and three underway lines, out of order.\<close>

theorem constructors_sort_witness:
  "records (NewEvt [''2021-05-01T10-00-05+00-00'', ''2021-05-01T10-00-00+00-00''] ''o'')
     = [\<lparr>time = Date 2021 5 1 10 0 0 0, path = ''2021-05-01T10-00-00+00-00''\<rparr>,
        \<lparr>time = Date 2021 5 1 10 0 5 0, path = ''2021-05-01T10-00-05+00-00''\<rparr>]
   \<and> sorted (map time (records (NewEvt [''2021-05-01T10-00-05+00-00'', ''2021-05-01T10-00-00+00-00''] ''o'')))
   \<and> NewSfl (\<lambda>f. Inr [''FILE'' @ [CHR 9] @ ''LAT'',
            ''2021-05-01T10:03:00+00:00'' @ [CHR 9] @ ''2.5'',
            ''2021-05-01T10:00:00+00:00'' @ [CHR 9] @ ''1.5'']) [''a.sfl''] ''o''
       = Inr ((sfl_empty ''o'')\<lparr>records :=
           [\<lparr>time = Date 2021 5 1 10 0 0 0, data = ''2021-05-01T10:00:00+00:00'' @ [CHR 9] @ ''1.5'', idx = 0\<rparr>,
            \<lparr>time = Date 2021 5 1 10 3 0 0,
              data = ''FILE'' @ [CHR 9] @ ''LAT'' @ [CHR 13, CHR 10] @ ''2021-05-01T10:03:00+00:00'' @ [CHR 9] @ ''2.5'',
              idx = 0\<rparr>],
           paths := [''a.sfl'']\<rparr>)
   \<and> NewSeaLog None
        [\<lparr>evName = ''start'', evTime = 7, evLine = ''a'', evLineNumber = 1\<rparr>,
         \<lparr>evName = ''stop'', evTime = 3, evLine = ''b'', evLineNumber = 2\<rparr>,
         \<lparr>evName = ''note'', evTime = 7, evLine = ''c'', evLineNumber = 3\<rparr>] None ''o''
       = Inr ((sealog_empty ''o'')\<lparr>records :=
           [\<lparr>time = 3, data = ''b''\<rparr>, \<lparr>time = 7, data = ''a''\<rparr>, \<lparr>time = 7, data = ''c''\<rparr>]\<rparr>)
   \<and> NewUnderway (Inr \<lparr>cclosed = False\<rparr>) None
        [(''x'', ParseData True 2500000000), (''y'', ParseData True 1200000000),
         (''z'', ParseData True 2700000000)] None
       = Inr ((underway_empty \<lparr>cclosed = False\<rparr>)\<lparr>records :=
           [\<lparr>time = 1000000000, data = ''y''\<rparr>, \<lparr>time = 2000000000, data = ''x\<newline>z''\<rparr>]\<rparr>)"
  using constructors_sort
    [where evtFiles = "[''2021-05-01T10-00-05+00-00'', ''2021-05-01T10-00-00+00-00'']" and dir = "''o''"
       and readFile = "\<lambda>f. Inr [''FILE'' @ [CHR 9] @ ''LAT'',
            ''2021-05-01T10:03:00+00:00'' @ [CHR 9] @ ''2.5'',
            ''2021-05-01T10:00:00+00:00'' @ [CHR 9] @ ''1.5'']"
       and sflFiles = "[''a.sfl'']"
       and s = "(sfl_empty ''o'')\<lparr>records :=
           [\<lparr>time = Date 2021 5 1 10 0 0 0, data = ''2021-05-01T10:00:00+00:00'' @ [CHR 9] @ ''1.5'', idx = 0\<rparr>,
            \<lparr>time = Date 2021 5 1 10 3 0 0,
              data = ''FILE'' @ [CHR 9] @ ''LAT'' @ [CHR 13, CHR 10] @ ''2021-05-01T10:03:00+00:00'' @ [CHR 9] @ ''2.5'',
              idx = 0\<rparr>],
           paths := [''a.sfl'']\<rparr>"
       and opened = None
       and events = "[\<lparr>evName = ''start'', evTime = 7, evLine = ''a'', evLineNumber = 1\<rparr>,
         \<lparr>evName = ''stop'', evTime = 3, evLine = ''b'', evLineNumber = 2\<rparr>,
         \<lparr>evName = ''note'', evTime = 7, evLine = ''c'', evLineNumber = 3\<rparr>]"
       and scanErr = None
       and l = "(sealog_empty ''o'')\<lparr>records :=
           [\<lparr>time = 3, data = ''b''\<rparr>, \<lparr>time = 7, data = ''a''\<rparr>, \<lparr>time = 7, data = ''c''\<rparr>]\<rparr>"
       and dial = "Inr \<lparr>cclosed = False\<rparr>" and uopened = None
       and scanned = "[(''x'', ParseData True 2500000000), (''y'', ParseData True 1200000000),
         (''z'', ParseData True 2700000000)]"
       and uscanErr = None
       and u = "(underway_empty \<lparr>cclosed = False\<rparr>)\<lparr>records :=
           [\<lparr>time = 1000000000, data = ''y''\<rparr>, \<lparr>time = 2000000000, data = ''x\<newline>z''\<rparr>]\<rparr>"
       and xs' = "[] :: underwayRecord list" and xs = "[]"]
        Date_0_5 Date_0_3
  by (simp add: sfl_line_def parse_example parse_example2 NewEvt_def evt_empty_def file_time_0 file_time_5 SliceStable_def by_time_def Before_def
        NewSfl_def sfl_empty_def NewSeaLog_def sealog_empty_def NewUnderway_def underway_empty_def
        coalesce_def Truncate_def Second_def)

section \<open>Properties of the delay\<close>


lemma round_half_even_of_int: "round_half_even (of_int n) = n"
  by (simp add: round_half_even_def Let_def)

lemma pow2_pos: "0 < pow2 e"
  by (simp add: pow2_def)


lemma float64_round_zero: "float64_round 0 = 0"
  by (simp add: float64_round_def)





lemma warp_delta_zero: "warp \<noteq> 0 \<Longrightarrow> warp_delta 0 warp = 0"
  by (simp add: warp_delta_def warp_quotient_def float64_of_int64_def float64_round_zero int64_of_float64_def)

lemma floor_log2: "2 ^ k \<le> x \<Longrightarrow> x < 2 ^ Suc k \<Longrightarrow> \<lfloor>log 2 x\<rfloor> = int k"
proof -
  assume a: "2 ^ k \<le> x" "x < 2 ^ Suc k"
  have pos: "0 < x" using a(1) by (smt (verit) zero_less_power)
  have "2 powr (of_int (int k)) \<le> x \<and> x < 2 powr (of_int (int k + 1))"
    using a by (simp add: powr_realpow powr_add)
  then show ?thesis using floor_log_eq_powr_iff [of x 2 "int k"] pos by simp
qed

lemma float64_round_exact:
  "2 ^ k \<le> x \<Longrightarrow> x < 2 ^ Suc k \<Longrightarrow> x / pow2 (int k - 52) = of_int n \<Longrightarrow> float64_round x = x"
proof -
  assume a: "2 ^ k \<le> x" "x < 2 ^ Suc k" and n: "x / pow2 (int k - 52) = of_int n"
  have pos: "0 < x" using a(1) by (smt (verit) zero_less_power)
  have e: "\<lfloor>log 2 \<bar>x\<bar>\<rfloor> = int k" using floor_log2 [OF a] pos by simp
  have "float64_round x = of_int n * pow2 (int k - 52)"
    using pos e n by (simp add: float64_round_def Let_def round_half_even_of_int)
  also have "\<dots> = x" using n pow2_pos [of "int k - 52"] by (simp add: field_simps)
  finally show ?thesis .
qed



lemma float_max: "float64_of_int64 (2 ^ 63 - 1) = 2 ^ 63"
proof -
  have e: "\<lfloor>log 2 \<bar>2 ^ 63 - 1 :: real\<bar>\<rfloor> = 62"
    using floor_log2 [of 62 "2 ^ 63 - 1"] by simp
  have r: "round_half_even ((2 ^ 63 - 1) / 2 ^ 10) = 2 ^ 53"
  proof -
    have f: "\<lfloor>(2 ^ 63 - 1) / 2 ^ 10 :: real\<rfloor> = 2 ^ 53 - 1"
      by (simp add: floor_eq_iff)
    show ?thesis unfolding round_half_even_def Let_def f by simp
  qed
  show ?thesis
    unfolding float64_of_int64_def float64_round_def Let_def
    using e r by (simp add: pow2_def)
qed

lemma quotient_max_1: "warp_quotient (2 ^ 63 - 1) 1 = 2 ^ 63"
  unfolding warp_quotient_def float_max
  by (simp, rule float64_round_exact [where k = 63 and n = "2 ^ 52"]) (simp_all add: pow2_def)


lemma delta_max_1: "warp_delta (2 ^ 63 - 1) 1 = - (2 ^ 63)"
  unfolding warp_delta_def quotient_max_1 by (simp add: int64_of_float64_def)

lemma float64_round_int:
  assumes "0 < n" "n < 2 ^ 53"
  shows "float64_round (of_int n) = of_int n"
proof -
  define k where "k = \<lfloor>log 2 (of_int n)\<rfloor>"
  have n1: "(1::real) \<le> of_int n" using assms(1) by simp
  have k0: "0 \<le> k" unfolding k_def using n1 by simp
  have "log 2 (of_int n) < 53"
  proof -
    have "real_of_int n < 2 ^ 53" using assms(2) by (metis of_int_less_numeral_power_cancel_iff)
    then have "real_of_int n < 2 powr 53" by simp
    then show ?thesis using n1 by (subst log_less_iff) auto
  qed
  then have k52: "k \<le> 52" unfolding k_def by (simp add: floor_le_iff)
  have p: "pow2 (k - 52) = 1 / 2 ^ nat (52 - k)" using k52 by (auto simp: pow2_def)
  have "of_int n / pow2 (k - 52) = (of_int (n * 2 ^ nat (52 - k)) :: real)" by (simp add: p)
  then have "round_half_even (of_int n / pow2 (k - 52)) = n * 2 ^ nat (52 - k)"
    by (simp only: round_half_even_of_int)
  then have "float64_round (of_int n) = of_int (n * 2 ^ nat (52 - k)) * pow2 (k - 52)"
    using assms(1) by (simp add: float64_round_def Let_def k_def)
  then show ?thesis by (simp add: p)
qed

lemma warp_delta_one: "0 \<le> n \<Longrightarrow> n < 2 ^ 53 \<Longrightarrow> warp_delta n 1 = n"
proof (cases "n = 0")
  case True
  then show ?thesis by (simp add: warp_delta_zero)
next
  case False
  assume a: "0 \<le> n" "n < 2 ^ 53"
  then have r: "float64_round (of_int n) = of_int n" using False by (intro float64_round_int) auto
  have "n < 2 ^ 63" using a(2) by simp
  then show ?thesis
    using a(1) by (simp add: warp_delta_def warp_quotient_def float64_of_int64_def r int64_of_float64_def)
qed


section \<open>Properties of the driver\<close>

lemma Emitter_Time_valid:
  "0 \<le> cursor e \<Longrightarrow> cursor e < Emitter_Len e \<Longrightarrow> Emitter_Time e = Some (record_times e ! nat (cursor e))"
  by (cases e) (auto simp: Time_at_def Len_def)

lemma Emitter_Len_times: "Emitter_Len e = int (length (record_times e))"
  by (cases e) (auto simp: Len_def)

lemma startEmitter_done:
  "\<not> fst (Emitter_Next e) \<Longrightarrow> startEmitter e cruiseStart replayStart warp = ([], Done)"
  by (subst startEmitter.simps) simp

lemma startEmitter_skip:
  "fst (Emitter_Next e) \<Longrightarrow> Emitter_Time (snd (Emitter_Next e)) = Some t \<Longrightarrow> Before t cruiseStart \<Longrightarrow>
   startEmitter e cruiseStart replayStart warp
     = startEmitter (snd (Emitter_Next e)) cruiseStart replayStart warp"
  by (subst startEmitter.simps) (simp add: Let_def)

lemma startEmitter_panic:
  "fst (Emitter_Next e) \<Longrightarrow> Emitter_Time (snd (Emitter_Next e)) = Some t \<Longrightarrow> \<not> Before t cruiseStart \<Longrightarrow>
   warp_delta (Sub t cruiseStart) warp < 0 \<Longrightarrow>
   startEmitter e cruiseStart replayStart warp = ([], PanicDelta)"
  by (subst startEmitter.simps) (simp add: Let_def)

lemma startEmitter_emit:
  "fst (Emitter_Next e) \<Longrightarrow> Emitter_Time (snd (Emitter_Next e)) = Some t \<Longrightarrow> \<not> Before t cruiseStart \<Longrightarrow>
   \<not> warp_delta (Sub t cruiseStart) warp < 0 \<Longrightarrow>
   startEmitter e cruiseStart replayStart warp
     = ((Add replayStart (warp_delta (Sub t cruiseStart) warp), cursor (snd (Emitter_Next e)))
          # fst (startEmitter (snd (Emitter_Next e)) cruiseStart replayStart warp),
        snd (startEmitter (snd (Emitter_Next e)) cruiseStart replayStart warp))"
  by (subst startEmitter.simps) (simp add: Let_def)

lemma startEmitter_events:
  "- 1 \<le> cursor e \<Longrightarrow>
   \<forall>ev \<in> set (fst (startEmitter e cruiseStart replayStart warp)).
      cursor e < snd ev \<and> snd ev < Emitter_Len e \<and> \<not> Before (record_times e ! nat (snd ev)) cruiseStart"
proof (induction e cruiseStart replayStart warp rule: startEmitter.induct)
  case (1 e cruiseStart replayStart warp)
  show ?case
  proof (cases "fst (Emitter_Next e)")
    case False
    then show ?thesis by (simp add: startEmitter_done)
  next
    case True
    define e' where "e' = snd (Emitter_Next e)"
    have step: "Emitter_Next e = (True, e')" using True by (simp add: e'_def prod_eq_iff)
    note facts = Emitter_Next_step [OF step]
    have c: "cursor e' = cursor e + 1" "cursor e' < Emitter_Len e'" "Emitter_Len e' = Emitter_Len e"
            "record_times e' = record_times e"
      using facts by auto
    have c0: "0 \<le> cursor e'" "- 1 \<le> cursor e'" using c "1.prems" by auto
    have t: "Emitter_Time e' = Some (record_times e ! nat (cursor e'))"
      using Emitter_Time_valid [OF c0(1) c(2)] c by simp
    let ?t = "record_times e ! nat (cursor e')"
    show ?thesis
    proof (cases "Before ?t cruiseStart")
      case skip: True
      have ih: "\<forall>ev \<in> set (fst (startEmitter e' cruiseStart replayStart warp)).
          cursor e' < snd ev \<and> snd ev < Emitter_Len e' \<and> \<not> Before (record_times e' ! nat (snd ev)) cruiseStart"
        using "1.IH"(1) [OF _ e'_def t [unfolded e'_def, folded e'_def] skip c0(2)] True by simp
      have "startEmitter e cruiseStart replayStart warp = startEmitter e' cruiseStart replayStart warp"
        using startEmitter_skip [OF True, of ?t cruiseStart replayStart warp] t skip by (simp add: e'_def)
      then show ?thesis using ih c by auto
    next
      case noskip: False
      show ?thesis
      proof (cases "warp_delta (Sub ?t cruiseStart) warp < 0")
        case True
        then show ?thesis
          using startEmitter_panic [OF \<open>fst (Emitter_Next e)\<close>, of ?t cruiseStart warp replayStart] t noskip
          by (simp add: e'_def)
      next
        case nonneg: False
        have ih: "\<forall>ev \<in> set (fst (startEmitter e' cruiseStart replayStart warp)).
            cursor e' < snd ev \<and> snd ev < Emitter_Len e' \<and> \<not> Before (record_times e' ! nat (snd ev)) cruiseStart"
          using "1.IH"(2) [OF _ e'_def t [unfolded e'_def, folded e'_def] noskip _ nonneg c0(2)] True by simp
        have "fst (startEmitter e cruiseStart replayStart warp)
            = (Add replayStart (warp_delta (Sub ?t cruiseStart) warp), cursor e')
                # fst (startEmitter e' cruiseStart replayStart warp)"
          using startEmitter_emit [OF True, of ?t cruiseStart warp replayStart] t noskip nonneg
          by (simp add: e'_def)
        then show ?thesis using ih c noskip by auto
      qed
    qed
  qed
qed

text \<open>The calls the driver makes when no delay overflows.\<close>

lemma startEmitter_trace:
  "- 1 \<le> cursor e \<Longrightarrow>
   \<forall>t \<in> set (record_times e). \<not> Before t cruiseStart \<longrightarrow> 0 \<le> warp_delta (Sub t cruiseStart) warp \<Longrightarrow>
   startEmitter e cruiseStart replayStart warp =
     (map (\<lambda>k. (Add replayStart (warp_delta (Sub (record_times e ! k) cruiseStart) warp), int k))
        (filter (\<lambda>k. \<not> Before (record_times e ! k) cruiseStart) [nat (cursor e + 1) ..< length (record_times e)]),
      Done)"
proof (induction e cruiseStart replayStart warp rule: startEmitter.induct)
  case (1 e cruiseStart replayStart warp)
  show ?case
  proof (cases "fst (Emitter_Next e)")
    case False
    then have "\<not> cursor e + 1 < Emitter_Len e"
      using Emitter_Next_step [of e "fst (Emitter_Next e)" "snd (Emitter_Next e)"]
      by (simp add: prod_eq_iff)
    then have "[nat (cursor e + 1) ..< length (record_times e)] = []"
      using "1.prems"(1) by (simp add: Emitter_Len_times)
    then show ?thesis using False by (auto simp: startEmitter_done)
  next
    case True
    define e' where "e' = snd (Emitter_Next e)"
    have step: "Emitter_Next e = (True, e')" using True by (simp add: e'_def prod_eq_iff)
    note facts = Emitter_Next_step [OF step]
    have c: "cursor e' = cursor e + 1" "cursor e' < Emitter_Len e'" "Emitter_Len e' = Emitter_Len e"
            "record_times e' = record_times e"
      using facts by auto
    have c0: "0 \<le> cursor e'" "- 1 \<le> cursor e'" using c "1.prems" by auto
    have t: "Emitter_Time e' = Some (record_times e ! nat (cursor e'))"
      using Emitter_Time_valid [OF c0(1) c(2)] c by simp
    let ?k = "nat (cursor e')"
    let ?t = "record_times e ! ?k"
    have k: "?k < length (record_times e)" using c c0 by (simp add: Emitter_Len_times)
    have upt: "[nat (cursor e + 1) ..< length (record_times e)] = ?k # [nat (cursor e' + 1) ..< length (record_times e)]"
      using k c c0 by (simp add: upt_conv_Cons nat_add_distrib Suc_nat_eq_nat_zadd1)
    have mem: "?t \<in> set (record_times e)" using k by simp
    have prems': "\<forall>t \<in> set (record_times e'). \<not> Before t cruiseStart \<longrightarrow> 0 \<le> warp_delta (Sub t cruiseStart) warp"
      using "1.prems"(2) c by simp
    show ?thesis
    proof (cases "Before ?t cruiseStart")
      case skip: True
      have ih: "startEmitter e' cruiseStart replayStart warp =
         (map (\<lambda>k. (Add replayStart (warp_delta (Sub (record_times e' ! k) cruiseStart) warp), int k))
            (filter (\<lambda>k. \<not> Before (record_times e' ! k) cruiseStart) [nat (cursor e' + 1) ..< length (record_times e')]),
          Done)"
        using "1.IH"(1) [OF _ e'_def t [unfolded e'_def, folded e'_def] skip c0(2) prems'] True by simp
      have "startEmitter e cruiseStart replayStart warp = startEmitter e' cruiseStart replayStart warp"
        using startEmitter_skip [OF True, of ?t cruiseStart replayStart warp] t skip by (simp add: e'_def)
      then show ?thesis using ih c skip upt by simp
    next
      case noskip: False
      have nonneg: "\<not> warp_delta (Sub ?t cruiseStart) warp < 0"
        using "1.prems"(2) mem noskip by auto
      have ih: "startEmitter e' cruiseStart replayStart warp =
         (map (\<lambda>k. (Add replayStart (warp_delta (Sub (record_times e' ! k) cruiseStart) warp), int k))
            (filter (\<lambda>k. \<not> Before (record_times e' ! k) cruiseStart) [nat (cursor e' + 1) ..< length (record_times e')]),
          Done)"
        using "1.IH"(2) [OF _ e'_def t [unfolded e'_def, folded e'_def] noskip _ nonneg c0(2) prems'] True by simp
      have "startEmitter e cruiseStart replayStart warp
            = ((Add replayStart (warp_delta (Sub ?t cruiseStart) warp), cursor e')
                # fst (startEmitter e' cruiseStart replayStart warp),
               snd (startEmitter e' cruiseStart replayStart warp))"
        using startEmitter_emit [OF True, of ?t cruiseStart warp replayStart] t noskip nonneg
        by (simp add: e'_def)
      then show ?thesis using ih c c0 noskip upt by simp
    qed
  qed
qed

text \<open>
  Claim C3.  For every feed, from a cursor a constructor or \<^verbatim>\<open>Next\<close> can leave: every call of
  \<^verbatim>\<open>Emit\<close> is made at a record of the slice whose time is not before the cruise-time origin,
  so a record before the origin is never passed to \<^verbatim>\<open>Emit\<close>.  Such a record is skipped
  silently: the driver goes on with the next record and nothing else happens.  A record whose
  time is the origin itself is not skipped: with a warp factor other than zero it is passed
  to \<^verbatim>\<open>Emit\<close>, its timer set for the replay origin.
\<close>

theorem skipped_before_origin:
  "(- 1 \<le> cursor e \<longrightarrow>
      (\<forall>ev \<in> set (fst (startEmitter e cruiseStart replayStart warp)).
          cursor e < snd ev \<and> snd ev < Emitter_Len e
          \<and> \<not> Before (record_times e ! nat (snd ev)) cruiseStart))
   \<and> (fst (Emitter_Next e) \<and> Emitter_Time (snd (Emitter_Next e)) = Some t \<and> Before t cruiseStart \<longrightarrow>
        startEmitter e cruiseStart replayStart warp
          = startEmitter (snd (Emitter_Next e)) cruiseStart replayStart warp)
   \<and> (fst (Emitter_Next e) \<and> Emitter_Time (snd (Emitter_Next e)) = Some cruiseStart \<and> warp \<noteq> 0 \<longrightarrow>
        startEmitter e cruiseStart replayStart warp
          = ((replayStart, cursor (snd (Emitter_Next e)))
               # fst (startEmitter (snd (Emitter_Next e)) cruiseStart replayStart warp),
             snd (startEmitter (snd (Emitter_Next e)) cruiseStart replayStart warp)))"
proof (intro conjI impI)
  assume "- 1 \<le> cursor e"
  then show "\<forall>ev \<in> set (fst (startEmitter e cruiseStart replayStart warp)).
          cursor e < snd ev \<and> snd ev < Emitter_Len e
          \<and> \<not> Before (record_times e ! nat (snd ev)) cruiseStart"
    by (rule startEmitter_events)
next
  assume "fst (Emitter_Next e) \<and> Emitter_Time (snd (Emitter_Next e)) = Some t \<and> Before t cruiseStart"
  then show "startEmitter e cruiseStart replayStart warp
          = startEmitter (snd (Emitter_Next e)) cruiseStart replayStart warp"
    by (simp add: startEmitter_skip)
next
  assume a: "fst (Emitter_Next e) \<and> Emitter_Time (snd (Emitter_Next e)) = Some cruiseStart \<and> warp \<noteq> 0"
  have z: "Sub cruiseStart cruiseStart = 0" by (simp add: Sub_def)
  have "\<not> Before cruiseStart cruiseStart" by (simp add: Before_def)
  moreover have "\<not> warp_delta (Sub cruiseStart cruiseStart) warp < 0"
    using a by (simp add: z warp_delta_zero)
  ultimately show "startEmitter e cruiseStart replayStart warp
          = ((replayStart, cursor (snd (Emitter_Next e)))
               # fst (startEmitter (snd (Emitter_Next e)) cruiseStart replayStart warp),
             snd (startEmitter (snd (Emitter_Next e)) cruiseStart replayStart warp))"
    using a startEmitter_emit [of e cruiseStart cruiseStart warp replayStart]
    by (simp add: z warp_delta_zero Add_def)
qed

text \<open>Records at 5, 10 and 20 ns, origin 10 ns, replay origin 1000 ns, warp factor 1.\<close>

theorem skipped_before_origin_witness:
  "startEmitter
     (EvtE \<lparr>i = - 1, records = [\<lparr>time = 5, path = ''a''\<rparr>, \<lparr>time = 10, path = ''b''\<rparr>,
                                 \<lparr>time = 20, path = ''c''\<rparr>], warnings = [], outDir = ''o''\<rparr>)
     10 1000 1
   = ([(1000, 1), (1010, 2)], Done)"
proof -
  let ?fresh = "EvtE \<lparr>i = - 1, records = [\<lparr>time = 5, path = ''a''\<rparr>, \<lparr>time = 10, path = ''b''\<rparr>,
                                 \<lparr>time = 20, path = ''c''\<rparr>], warnings = [], outDir = ''o''\<rparr>"
  let ?first = "EvtE \<lparr>i = 0, records = [\<lparr>time = 5, path = ''a''\<rparr>, \<lparr>time = 10, path = ''b''\<rparr>,
                                 \<lparr>time = 20, path = ''c''\<rparr>], warnings = [], outDir = ''o''\<rparr>"
  let ?second = "EvtE \<lparr>i = 1, records = [\<lparr>time = 5, path = ''a''\<rparr>, \<lparr>time = 10, path = ''b''\<rparr>,
                                 \<lparr>time = 20, path = ''c''\<rparr>], warnings = [], outDir = ''o''\<rparr>"
  have skip: "startEmitter ?fresh 10 1000 1 = startEmitter ?first 10 1000 1"
    using skipped_before_origin [of ?fresh 10 1000 1 5]
    by (simp add: Next_def Time_at_def Before_def)
  have emit: "startEmitter ?first 10 1000 1
      = ((1000, 1) # fst (startEmitter ?second 10 1000 1), snd (startEmitter ?second 10 1000 1))"
    using skipped_before_origin [of ?first 10 1000 1 5]
    by (simp add: Next_def Time_at_def Before_def nth_Cons')
  have last: "startEmitter ?second 10 1000 1 = ([(1010, 2)], Done)"
    using startEmitter_trace [of ?second 10 1 1000] warp_delta_one [of 10]
    by (simp add: Before_def Sub_def Add_def nth_Cons' warp_delta_zero)
  show ?thesis using skip emit last by simp
qed




section \<open>The scenario of two files\<close>

lemma two_files:
  "NewEvt [''2021-05-01T10-00-00+00-00'', ''2021-05-01T10-00-05+00-00''] ''out''
     = \<lparr>i = - 1,
        records = [\<lparr>time = Date 2021 5 1 10 0 0 0, path = ''2021-05-01T10-00-00+00-00''\<rparr>,
                   \<lparr>time = Date 2021 5 1 10 0 5 0, path = ''2021-05-01T10-00-05+00-00''\<rparr>],
        warnings = [], outDir = ''out''\<rparr>"
  by (simp add: NewEvt_def evt_empty_def file_time_0 file_time_5 SliceStable_def by_time_def
        Before_def Date_2021 Date_2021_5)

text \<open>
  Claim C6, evaluated.  The two EVT files are the only input: there is no SFL file, and the
  underway file and the instrument log are empty, so the three other feeds are empty.
  \<^verbatim>\<open>Run\<close> examines the feeds in the order EVT, SFL, underway, log: the zero earliest time of
  the empty SFL feed is before 10:00:00 and replaces it, and the cruise-time origin is the
  zero time, not 10:00:00.  The first record is then more than 292 years after the origin,
  its delay overflows, and the driver of the EVT feed panics with no call of \<^verbatim>\<open>Emit\<close>.
  With the EVT feed as the only emitter the origin is 10:00:00 and the two files fire 5 s and
  10 s after \<open>now\<close>, as the claim says.
\<close>

theorem two_files_with_empty_feeds:
  "NewSfl readFile [] ''out'' = Inr (sfl_empty ''out'')
   \<and> NewUnderway (Inr c) None [] None = Inr (underway_empty c)
   \<and> NewSeaLog None [] None ''out'' = Inr (sealog_empty ''out'')
   \<and> cruise_origin 0
        [EvtE (NewEvt [''2021-05-01T10-00-00+00-00'', ''2021-05-01T10-00-05+00-00''] ''out''),
         SflE (sfl_empty ''out''), UnderwayE (underway_empty c), SeaLogE (sealog_empty ''out'')]
       = 0
   \<and> Run now 0 1
        [EvtE (NewEvt [''2021-05-01T10-00-00+00-00'', ''2021-05-01T10-00-05+00-00''] ''out''),
         SflE (sfl_empty ''out''), UnderwayE (underway_empty c), SeaLogE (sealog_empty ''out'')]
       = [([], PanicDelta), ([], Done), ([], Done), ([], Done)]
   \<and> cruise_origin 0
        [EvtE (NewEvt [''2021-05-01T10-00-00+00-00'', ''2021-05-01T10-00-05+00-00''] ''out'')]
       = Date 2021 5 1 10 0 0 0
   \<and> Run now 0 1
        [EvtE (NewEvt [''2021-05-01T10-00-00+00-00'', ''2021-05-01T10-00-05+00-00''] ''out'')]
       = [([(now + 5 * Second, 0), (now + 10 * Second, 1)], Done)]"
proof -
  let ?evt = "EvtE (NewEvt [''2021-05-01T10-00-00+00-00'', ''2021-05-01T10-00-05+00-00''] ''out'')"
  let ?four = "[?evt, SflE (sfl_empty ''out''), UnderwayE (underway_empty c), SeaLogE (sealog_empty ''out'')]"
  have ctor: "NewSfl readFile [] ''out'' = Inr (sfl_empty ''out'')"
    "NewUnderway (Inr c) None [] None = Inr (underway_empty c)"
    "NewSeaLog None [] None ''out'' = Inr (sealog_empty ''out'')"
    by (simp_all add: NewSfl_def sfl_empty_def NewUnderway_def underway_empty_def NewSeaLog_def
          sealog_empty_def SliceStable_def coalesce_def)
  have origin4: "cruise_origin 0 ?four = 0"
    by (simp add: two_files cruise_origin_def minTime_def IsZero_def Before_def Earliest_def
          sfl_empty_def underway_empty_def sealog_empty_def Date_2021)
  have origin1: "cruise_origin 0 [?evt] = Date 2021 5 1 10 0 0 0"
    by (simp add: two_files cruise_origin_def minTime_def IsZero_def Before_def Earliest_def)
  have sat: "Sub (Date 2021 5 1 10 0 0 0) 0 = 2 ^ 63 - 1"
    by (simp add: Sub_def Date_2021 Before_def)
  have neg: "warp_delta (Sub (Date 2021 5 1 10 0 0 0) 0) 1 < 0"
    unfolding sat delta_max_1 by simp
  have panic: "startEmitter ?evt 0 (replay_origin now) 1 = ([], PanicDelta)"
    by (rule startEmitter_panic [where t = "Date 2021 5 1 10 0 0 0"])
       (simp_all add: two_files Next_def Time_at_def neg, simp add: Before_def Date_2021)
  have empties: "startEmitter (SflE (sfl_empty ''out'')) 0 (replay_origin now) 1 = ([], Done)"
    "startEmitter (UnderwayE (underway_empty c)) 0 (replay_origin now) 1 = ([], Done)"
    "startEmitter (SeaLogE (sealog_empty ''out'')) 0 (replay_origin now) 1 = ([], Done)"
    by (simp_all add: startEmitter_done Next_def sfl_empty_def underway_empty_def sealog_empty_def)
  have run4: "Run now 0 1 ?four = [([], PanicDelta), ([], Done), ([], Done), ([], Done)]"
    unfolding Run_def origin4 using panic empties by simp
  have trace: "startEmitter ?evt (Date 2021 5 1 10 0 0 0) (replay_origin now) 1
      = ([(now + 5 * Second, 0), (now + 10 * Second, 1)], Done)"
    using startEmitter_trace [of ?evt "Date 2021 5 1 10 0 0 0" 1 "replay_origin now"]
          warp_delta_one [of 5000000000] warp_delta_zero [of 1]
    by (simp add: two_files Sub_def Before_def Date_2021 Date_2021_5
          replay_origin_def Add_def Second_def upt_conv_Cons)
  have run1: "Run now 0 1 [?evt] = [([(now + 5 * Second, 0), (now + 10 * Second, 1)], Done)]"
    unfolding Run_def origin1 using trace by simp
  show ?thesis using ctor origin4 run4 origin1 run1 by simp
qed

section \<open>Properties of closing\<close>

lemma Sfl_Close_returns:
  assumes "Sfl_Close s = Some r"
  shows "outFile s = None"
proof -
  have step: "outFile s = None"
    if "\<And>x y. close x = Some y \<Longrightarrow> outFile x = None"
      and "(if outFile s \<noteq> None then Option.bind (close s) (\<lambda>r. Some (fst r, snd r))
            else Some (None, s)) = Some r"
    for close :: "Sfl \<Rightarrow> (string option \<times> Sfl) option" and s r
    using that by (cases "outFile s = None") (auto simp: bind_eq_Some_conv)
  show ?thesis
    by (rule Sfl_Close.raw_induct [where P = "\<lambda>s r. outFile s = None", OF step assms])
qed

lemma Sfl_Close_hangs: "outFile s \<noteq> None \<Longrightarrow> Sfl_Close s = None"
  using Sfl_Close_returns [of s] by (cases "Sfl_Close s") auto

lemma Sfl_Close_closed: "outFile s = None \<Longrightarrow> Sfl_Close s = Some (None, s)"
  by (subst Sfl_Close.simps) simp

text \<open>
  Claim C2, evaluated.  Once \<^verbatim>\<open>Emit\<close> has opened the output file, \<^verbatim>\<open>Sfl.Close\<close> never returns
  (it calls itself without end).  \<^verbatim>\<open>SeaLog.Close\<close> on an open file succeeds and leaves the
  closed file in the field, so that a second call closes it again and returns the error of
  the standard library; \<^verbatim>\<open>Underway.Close\<close> does the same with its connection, which every
  constructed \<^verbatim>\<open>Underway\<close> holds.  \<^verbatim>\<open>Evt.Close\<close> does nothing, and \<^verbatim>\<open>Sfl.Close\<close> and
  \<^verbatim>\<open>SeaLog.Close\<close> do nothing when no file was opened, that is when \<^verbatim>\<open>Emit\<close> was never called.
\<close>

theorem Close_twice:
  "(outFile s \<noteq> None \<longrightarrow> Sfl_Close s = None \<and> Emitter_Close (SflE s) = None)
   \<and> (outFile l = Some f \<and> \<not> fclosed f \<longrightarrow>
        SeaLog_Close l = (None, l\<lparr>outFile := Some (f\<lparr>fclosed := True\<rparr>)\<rparr>)
        \<and> SeaLog_Close (l\<lparr>outFile := Some (f\<lparr>fclosed := True\<rparr>)\<rparr>)
            = (Some ''file already closed'', l\<lparr>outFile := Some (f\<lparr>fclosed := True\<rparr>)\<rparr>))
   \<and> (conn u = Some c \<and> \<not> cclosed c \<longrightarrow>
        Underway_Close u = (None, u\<lparr>conn := Some (c\<lparr>cclosed := True\<rparr>)\<rparr>)
        \<and> Underway_Close (u\<lparr>conn := Some (c\<lparr>cclosed := True\<rparr>)\<rparr>)
            = (Some ''underway: use of closed network connection'',
               u\<lparr>conn := Some (c\<lparr>cclosed := True\<rparr>)\<rparr>))
   \<and> Evt_Close e = (None, e)
   \<and> (outFile s = None \<longrightarrow> Sfl_Close s = Some (None, s))
   \<and> (outFile l = None \<longrightarrow> SeaLog_Close l = (None, l))"
  by (auto simp: Sfl_Close_hangs Sfl_Close_closed SeaLog_Close_def os_File_Close_def
        Underway_Close_def net_Conn_Close_def Evt_Close_def)

text \<open>An SFL feed and a log feed with their output file open, and an underway feed.\<close>

theorem Close_twice_witness:
  "Sfl_Close ((sfl_empty ''out'')\<lparr>outFile := Some \<lparr>fname = ''out/a.sfl'', fclosed = False\<rparr>\<rparr>) = None
   \<and> SeaLog_Close ((sealog_empty ''out'')\<lparr>outFile := Some \<lparr>fname = ''out/logs/SFlog.txt'', fclosed = False\<rparr>\<rparr>)
       = (None, (sealog_empty ''out'')\<lparr>outFile := Some \<lparr>fname = ''out/logs/SFlog.txt'', fclosed = True\<rparr>\<rparr>)
   \<and> SeaLog_Close ((sealog_empty ''out'')\<lparr>outFile := Some \<lparr>fname = ''out/logs/SFlog.txt'', fclosed = True\<rparr>\<rparr>)
       = (Some ''file already closed'',
          (sealog_empty ''out'')\<lparr>outFile := Some \<lparr>fname = ''out/logs/SFlog.txt'', fclosed = True\<rparr>\<rparr>)
   \<and> Underway_Close (underway_empty \<lparr>cclosed = False\<rparr>) = (None, underway_empty \<lparr>cclosed = True\<rparr>)
   \<and> Underway_Close (underway_empty \<lparr>cclosed = True\<rparr>)
       = (Some ''underway: use of closed network connection'', underway_empty \<lparr>cclosed = True\<rparr>)
   \<and> Sfl_Close (sfl_empty ''out'') = Some (None, sfl_empty ''out'')
   \<and> SeaLog_Close (sealog_empty ''out'') = (None, sealog_empty ''out'')"
  using Close_twice
    [of "(sfl_empty ''out'')\<lparr>outFile := Some \<lparr>fname = ''out/a.sfl'', fclosed = False\<rparr>\<rparr>"
        "(sealog_empty ''out'')\<lparr>outFile := Some \<lparr>fname = ''out/logs/SFlog.txt'', fclosed = False\<rparr>\<rparr>"
        "\<lparr>fname = ''out/logs/SFlog.txt'', fclosed = False\<rparr>"
        "underway_empty \<lparr>cclosed = False\<rparr>" "\<lparr>cclosed = False\<rparr>" "evt_empty ''out''"]
    Close_twice [of "sfl_empty ''out''" "sealog_empty ''out''"]
  by (simp add: sfl_empty_def sealog_empty_def underway_empty_def)

end
